theory Spec2Isabelle
  imports Complex_Main "HOL-Library.AList"
begin

section \<open>Data model\<close>

text \<open>
  A cycle record table is a pandas DataFrame with the required columns
  \<open>TimeMin\<close>, \<open>Vol\<close> and \<open>Crate\<close> (\<open>BaseDataLoader.validate_data\<close>). It is
  modelled as the list of its rows in positional order. Floating-point values are
  idealised as real numbers; the one non-number pandas produces in the routines below,
  NaN, is written \<open>None\<close> wherever a routine can yield it.
\<close>

record row =
  TimeMin :: real
  Vol :: real
  Crate :: real

type_synonym table = "row list"

text \<open>Python exceptions raised by the container, the loaders and the analyzers.\<close>

datatype exn_class = KeyError | ValueError | FileNotFoundError | IndexError | AttributeError

datatype error =
    CycleNotFound int
      \<comment> \<open>\<open>KeyError(f"Cycle {cycle_no} not found in container")\<close>\<close>
  | CyclesNotFound "int list"
      \<comment> \<open>\<open>KeyError(f"Cycles not found: {missing_cycles}")\<close>\<close>
  | NoCyclesInRange int int
      \<comment> \<open>\<open>ValueError(f"No cycles found in range {start}-{end}")\<close>\<close>
  | SaveDataNotFound int
      \<comment> \<open>\<open>FileNotFoundError(f"SaveData{cycle_no}.csv not found in ...")\<close>\<close>
  | NoDataForCycle int
      \<comment> \<open>\<open>ValueError(f"No data found for Cycle {cycle_no}")\<close>\<close>
  | MissingKey string
      \<comment> \<open>\<open>KeyError(key)\<close> of a dictionary subscript\<close>
  | MissingColumns "string list"
      \<comment> \<open>\<open>ValueError(f"Missing required columns: {missing_columns}")\<close>\<close>
  | ConditionColumnMissing
      \<comment> \<open>\<open>ValueError(f"'Condition' column not found in ...")\<close>\<close>
  | NoRawDataFiles
      \<comment> \<open>\<open>FileNotFoundError(f"No raw data files found in {data_path}")\<close>\<close>
  | IdenticalX
      \<comment> \<open>\<open>ValueError\<close> of \<open>scipy.stats.linregress\<close>: all x values are identical\<close>
  | OutOfBounds
      \<comment> \<open>\<open>IndexError\<close> of \<open>iloc[-1]\<close> on a frame without rows\<close>
  | LabelNotFound int
      \<comment> \<open>\<open>KeyError(label)\<close> of \<open>df.loc[label, column]\<close>\<close>
  | StrAccessor
      \<comment> \<open>\<open>AttributeError\<close> of \<open>Series.str\<close> on a column that holds no string\<close>

fun exn_class_of :: "error \<Rightarrow> exn_class" where
  "exn_class_of (CycleNotFound n) = KeyError"
| "exn_class_of (CyclesNotFound ns) = KeyError"
| "exn_class_of (NoCyclesInRange a b) = ValueError"
| "exn_class_of (SaveDataNotFound n) = FileNotFoundError"
| "exn_class_of (NoDataForCycle n) = ValueError"
| "exn_class_of (MissingKey k) = KeyError"
| "exn_class_of (MissingColumns cols) = ValueError"
| "exn_class_of ConditionColumnMissing = ValueError"
| "exn_class_of NoRawDataFiles = FileNotFoundError"
| "exn_class_of IdenticalX = ValueError"
| "exn_class_of OutOfBounds = IndexError"
| "exn_class_of (LabelNotFound l) = KeyError"
| "exn_class_of StrAccessor = AttributeError"

section \<open>Data loaders (data/base_loader.py, pne_loader.py, toyo_loader.py)\<close>

text \<open>
  What \<open>pd.read_csv\<close> returns for a file: the column names and the rows. A cell of
  the voltage or current column may be null (\<open>None\<close>); elapsed time is present in
  every row. The cells of a row whose column is not among the column names are not read.
\<close>

record frame_row =
  cell_time :: real
  cell_voltage :: "real option"
  cell_current :: "real option"
  cell_condition :: "string option"

record frame =
  columns :: "string list"
  body :: "frame_row list"

text \<open>
  \<open>BaseDataLoader.validate_data\<close> and \<open>preprocess_data\<close> on a frame whose time,
  voltage and current columns carry the standard names: the missing required columns are
  reported in the order \<open>TimeMin\<close>, \<open>Vol\<close>, \<open>Crate\<close>; the rows are sorted
  by elapsed time and those with a null voltage or current are dropped.

  \<open>sort_values\<close> runs numpy's default sort (quicksort), which is not stable: on a
  frame of more than 16 rows the order of rows with equal elapsed time is not fixed by
  the source. \<open>sort_key\<close> keeps such rows in file order, so \<open>preprocess_data\<close> is
  the source's table for every frame whose elapsed times are distinct, and for every
  frame of at most 16 rows. The frames evaluated below have distinct elapsed times.
\<close>

definition validate_data :: "frame \<Rightarrow> error + unit" where
  "validate_data df =
     (let missing_columns = filter (\<lambda>col. col \<notin> set (columns df)) [''TimeMin'', ''Vol'', ''Crate'']
      in if missing_columns \<noteq> [] then Inl (MissingColumns missing_columns) else Inr ())"

definition dropna :: "frame_row list \<Rightarrow> table" where
  "dropna rows =
     concat (map (\<lambda>r. case (cell_voltage r, cell_current r) of
                         (Some v, Some c) \<Rightarrow> [\<lparr>TimeMin = cell_time r, Vol = v, Crate = c\<rparr>]
                       | _ \<Rightarrow> []) rows)"

definition preprocess_data :: "frame \<Rightarrow> table" where
  "preprocess_data df = dropna (sort_key cell_time (body df))"

text \<open>
  The index of the table \<open>preprocess_data\<close> returns. \<open>reset_index(drop=True)\<close>
  numbers the sorted rows \<open>0 .. n - 1\<close> before \<open>dropna\<close> runs, and \<open>dropna\<close>
  keeps the label of every row it keeps: the labels are the positions, in the sorted
  frame, of the rows with a voltage and a current. They are \<open>0 .. n - 1\<close> again only
  when no row is dropped.
\<close>

definition preprocess_index :: "frame \<Rightarrow> int list" where
  "preprocess_index df =
     (let sorted_rows = sort_key cell_time (body df)
      in map int (filter (\<lambda>i. cell_voltage (sorted_rows ! i) \<noteq> None \<and>
                                cell_current (sorted_rows ! i) \<noteq> None)
                    [0..<length sorted_rows]))"

text \<open>
  \<open>PNEDataLoader.load_cycle\<close>. The data directory is given by the files
  \<open>SaveData<n>.csv\<close> it holds directly and those under \<open>Restore/\<close>, each as the
  frame read from it, keyed by \<open>n\<close>.
\<close>

record pne_directory =
  savedata :: "(int \<times> frame) list"
  restore :: "(int \<times> frame) list"

definition pne_load_cycle :: "pne_directory \<Rightarrow> int \<Rightarrow> error + table" where
  "pne_load_cycle data_path cycle_no =
     (case (case map_of (savedata data_path) cycle_no of
              Some f \<Rightarrow> Inr f
            | None \<Rightarrow>
                (case map_of (restore data_path) cycle_no of
                   Some f \<Rightarrow> Inr f
                 | None \<Rightarrow> Inl (SaveDataNotFound cycle_no))) of
        Inl e \<Rightarrow> Inl e
      | Inr df \<Rightarrow>
          (case validate_data df of
             Inl e \<Rightarrow> Inl e
           | Inr u \<Rightarrow> Inr (preprocess_data df)))"

text \<open>
  The pattern \<open>f"Cycle\\s+{cycle_no}"\<close> searched without regard to case
  (\<open>str.contains(..., case=False, na=False)\<close>): somewhere in the label the letters of
  \<open>cycle\<close>, then one or more white-space characters, then the decimal digits of the
  number. Labels are ASCII strings; on these \<open>\\s\<close> is one of space, tab, line feed,
  vertical tab, form feed, carriage return and the four separators \<open>0x1C\<close> to
  \<open>0x1F\<close>. A null label does not match.
\<close>

fun decimal_digits :: "nat \<Rightarrow> nat list" where
  "decimal_digits n = (if n < 10 then [n] else decimal_digits (n div 10) @ [n mod 10])"

declare decimal_digits.simps [simp del]

definition string_of_nat :: "nat \<Rightarrow> string" where
  "string_of_nat n = map (\<lambda>d. char_of (48 + d)) (decimal_digits n)"

definition string_of_int :: "int \<Rightarrow> string" where
  "string_of_int i =
     (if i < 0 then CHR ''-'' # string_of_nat (nat (- i)) else string_of_nat (nat i))"

definition lower :: "char \<Rightarrow> char" where
  "lower c = (let n = (of_char c :: nat) in if 65 \<le> n \<and> n \<le> 90 then char_of (n + 32) else c)"

definition is_space :: "char \<Rightarrow> bool" where
  "is_space c = ((of_char c :: nat) \<in> {32, 9, 10, 11, 12, 13, 28, 29, 30, 31})"

definition match_here :: "string \<Rightarrow> int \<Rightarrow> bool" where
  "match_here s cycle_no =
     (map lower (take 5 s) = ''cycle'' \<and>
      (let rest = drop 5 s; after = dropWhile is_space rest
       in rest \<noteq> [] \<and> is_space (hd rest) \<and>
          take (length (string_of_int cycle_no)) after = string_of_int cycle_no))"

fun tails :: "string \<Rightarrow> string list" where
  "tails [] = [[]]"
| "tails (c # s) = (c # s) # tails s"

definition contains_cycle :: "string option \<Rightarrow> int \<Rightarrow> bool" where
  "contains_cycle label cycle_no =
     (case label of None \<Rightarrow> False | Some s \<Rightarrow> list_ex (\<lambda>t. match_here t cycle_no) (tails s))"

text \<open>
  \<open>ToyoDataLoader.load_cycle\<close>. A data directory is given by the frame read from
  its first raw file (columns \<open>Time\<close> in seconds, \<open>Voltage\<close>, \<open>Current\<close>,
  \<open>Condition\<close>), or \<open>None\<close> when it holds no raw file. \<open>_load_raw_data\<close> reads
  it on the first call of a loader instance and keeps it in \<open>_raw_data_cache\<close>; the
  cache belongs to the instance and is not keyed by \<open>data_path\<close>, so every later call
  of the same instance filters the cached frame, whatever directory it is given. The
  argument \<open>data_path\<close> of the model is therefore the directory of the first call of
  the instance: the one directory of a \<open>load_all_cycles\<close> run on a fresh loader.

  \<open>df["Condition"].str\<close> raises \<open>AttributeError\<close> on a column that is not of
  string type, which is how \<open>read_csv\<close> returns a column whose cells are all empty
  when the file has rows; a file with a header only gives an empty column of object type,
  on which the accessor works. \<open>_map_columns\<close> renames the columns and converts
  seconds to minutes; the Toyo \<open>preprocess_data\<close> shifts elapsed time to start at 0.
\<close>

definition load_raw_data :: "frame option \<Rightarrow> error + frame" where
  "load_raw_data data_path =
     (case data_path of
        None \<Rightarrow> Inl NoRawDataFiles
      | Some df \<Rightarrow>
          if ''Condition'' \<notin> set (columns df) then Inl ConditionColumnMissing else Inr df)"

definition rename_column :: "string \<Rightarrow> string" where
  "rename_column col =
     (if col = ''Time'' then ''TimeMin'' else if col = ''Voltage'' then ''Vol''
      else if col = ''Current'' then ''Crate'' else if col = ''Temperature'' then ''Temp''
      else col)"

definition map_columns :: "frame \<Rightarrow> frame" where
  "map_columns df =
     \<lparr>columns = map rename_column (columns df),
      body = (if ''TimeMin'' \<in> set (map rename_column (columns df))
              then map (\<lambda>r. r\<lparr>cell_time := cell_time r / 60\<rparr>) (body df)
              else body df)\<rparr>"

definition toyo_preprocess_data :: "frame \<Rightarrow> table" where
  "toyo_preprocess_data df =
     (let t = preprocess_data df
      in if length t > 0
         then map (\<lambda>r. r\<lparr>TimeMin := TimeMin r - fold min (map TimeMin (tl t)) (TimeMin (hd t))\<rparr>) t
         else t)"

definition toyo_load_cycle :: "frame option \<Rightarrow> int \<Rightarrow> error + table" where
  "toyo_load_cycle data_path cycle_no =
     (case load_raw_data data_path of
        Inl e \<Rightarrow> Inl e
      | Inr df \<Rightarrow>
          if body df \<noteq> [] \<and> list_all (\<lambda>r. cell_condition r = None) (body df)
          then Inl StrAccessor
          else
            let cycle_df = df\<lparr>body := filter (\<lambda>r. contains_cycle (cell_condition r) cycle_no)
                                           (body df)\<rparr>
            in if length (body cycle_df) = 0 then Inl (NoDataForCycle cycle_no)
               else
                 let cycle_df = map_columns cycle_df
                 in (case validate_data cycle_df of
                       Inl e \<Rightarrow> Inl e
                     | Inr u \<Rightarrow> Inr (toyo_preprocess_data cycle_df)))"

text \<open>
  A loader instance together with the directory it reads; \<open>load_cycle\<close> dispatches on
  the variant.
\<close>

datatype loader = PNEDataLoader pne_directory | ToyoDataLoader "frame option"

fun load_cycle :: "loader \<Rightarrow> int \<Rightarrow> error + table" where
  "load_cycle (PNEDataLoader data_path) cycle_no = pne_load_cycle data_path cycle_no"
| "load_cycle (ToyoDataLoader data_path) cycle_no = toyo_load_cycle data_path cycle_no"

section \<open>Cycle data container (data/container.py)\<close>

text \<open>
  \<open>CycleDataContainer._cycles\<close> is a Python dict from cycle number to table; a dict
  keeps insertion order, so it is an association list with distinct keys, updated with
  \<open>AList.update\<close> (a new key goes to the end, an old key keeps its place).
\<close>

type_synonym cycles = "(int \<times> table) list"

definition has_cycle :: "cycles \<Rightarrow> int \<Rightarrow> bool" where
  "has_cycle cs cycle_no = (cycle_no \<in> set (map fst cs))"

text \<open>\<open>self._cycles[cycle_no]\<close>, read only where \<open>cycle_no in self._cycles\<close> holds.\<close>

definition stored :: "cycles \<Rightarrow> int \<Rightarrow> table" where
  "stored cs cycle_no = (case map_of cs cycle_no of Some df \<Rightarrow> df | None \<Rightarrow> [])"

definition get_cycle :: "cycles \<Rightarrow> int \<Rightarrow> error + table" where
  "get_cycle cs cycle_no =
     (if \<not> has_cycle cs cycle_no then Inl (CycleNotFound cycle_no)
      else Inr (stored cs cycle_no))"

text \<open>
  The loop of \<open>get_cycles\<close>: \<open>result\<close> and \<open>missing_cycles\<close> are the two
  accumulators.
\<close>

fun get_cycles_loop ::
  "cycles \<Rightarrow> int list \<Rightarrow> cycles \<Rightarrow> int list \<Rightarrow> cycles \<times> int list" where
  "get_cycles_loop cs [] result missing_cycles = (result, missing_cycles)"
| "get_cycles_loop cs (cycle_no # cycle_list) result missing_cycles =
     (if has_cycle cs cycle_no
      then get_cycles_loop cs cycle_list
             (AList.update cycle_no (stored cs cycle_no) result) missing_cycles
      else get_cycles_loop cs cycle_list result (missing_cycles @ [cycle_no]))"

definition get_cycles :: "cycles \<Rightarrow> int list \<Rightarrow> error + cycles" where
  "get_cycles cs cycle_list =
     (case get_cycles_loop cs cycle_list [] [] of
        (result, missing_cycles) \<Rightarrow>
          if missing_cycles \<noteq> [] then Inl (CyclesNotFound missing_cycles)
          else Inr result)"

text \<open>
  \<open>Series.max()\<close> of a column: NaN (\<open>None\<close>) on a column without rows.
\<close>

definition series_max :: "real list \<Rightarrow> real option" where
  "series_max xs = (case xs of [] \<Rightarrow> None | x # ys \<Rightarrow> Some (fold max ys x))"

text \<open>
  \<open>cumulative_time > 0\<close>: the variable starts as the number 0 and is afterwards the
  result of \<open>Series.max()\<close>; a comparison with NaN is false.
\<close>

definition positive :: "real option \<Rightarrow> bool" where
  "positive c = (case c of None \<Rightarrow> False | Some v \<Rightarrow> v > 0)"

definition shift_time :: "real \<Rightarrow> table \<Rightarrow> table" where
  "shift_time c df = map (\<lambda>r. r\<lparr>TimeMin := TimeMin r + c\<rparr>) df"

text \<open>
  The loop of \<open>get_cycle_range\<close> over \<open>range(start, end + 1)\<close>, with the list
  \<open>dfs\<close> and \<open>cumulative_time\<close> as accumulators. Every stored table has the column
  \<open>TimeMin\<close>, so both column tests of the source are true.
\<close>

fun get_cycle_range_loop ::
  "cycles \<Rightarrow> int list \<Rightarrow> table list \<Rightarrow> real option \<Rightarrow> table list" where
  "get_cycle_range_loop cs [] dfs cumulative_time = dfs"
| "get_cycle_range_loop cs (cycle_no # rest) dfs cumulative_time =
     (if \<not> has_cycle cs cycle_no then get_cycle_range_loop cs rest dfs cumulative_time
      else
        let df = stored cs cycle_no;
            df = (if positive cumulative_time then shift_time (the cumulative_time) df
                  else df)
        in get_cycle_range_loop cs rest (dfs @ [df]) (series_max (map TimeMin df)))"

definition get_cycle_range :: "cycles \<Rightarrow> int \<Rightarrow> int \<Rightarrow> error + table" where
  "get_cycle_range cs start end =
     (let dfs = get_cycle_range_loop cs [start..end] [] (Some 0)
      in if dfs = [] then Inl (NoCyclesInRange start end) else Inr (concat dfs))"

text \<open>
  A stored table that the time-axis correction handles: it has a row, is sorted by
  elapsed time and has no negative elapsed time.
\<close>

definition well_timed :: "table \<Rightarrow> bool" where
  "well_timed df = (df \<noteq> [] \<and> sorted (map TimeMin df) \<and> (\<forall>r \<in> set df. 0 \<le> TimeMin r))"

definition get_loaded_cycle_numbers :: "cycles \<Rightarrow> int list" where
  "get_loaded_cycle_numbers cs = sort (map fst cs)"

text \<open>
  The container with its two dictionaries. The metadata dictionary is empty until
  \<open>load_all_cycles\<close> has run and then holds the three entries \<open>data_path\<close>,
  \<open>cycle_range\<close> and \<open>loaded_cycles\<close>.
\<close>

datatype meta_value = MetaPath string | MetaRange int int | MetaCycles "int list"

record container =
  container_cycles :: cycles
  container_metadata :: "(string \<times> meta_value) list"

text \<open>
  The loop of \<open>load_all_cycles\<close> over \<open>range(start, end + 1)\<close>: a cycle whose
  load raises \<open>FileNotFoundError\<close> is skipped; any other exception leaves the loop and
  the method.
\<close>

fun load_loop :: "loader \<Rightarrow> int list \<Rightarrow> cycles \<Rightarrow> error + cycles" where
  "load_loop ld [] cs = Inr cs"
| "load_loop ld (cycle_no # rest) cs =
     (case load_cycle ld cycle_no of
        Inr df \<Rightarrow> load_loop ld rest (AList.update cycle_no df cs)
      | Inl e \<Rightarrow>
          if exn_class_of e = FileNotFoundError then load_loop ld rest cs else Inl e)"

text \<open>
  \<open>load_all_cycles\<close>. \<open>detected\<close> is what \<open>get_all_cycles(data_path)\<close>
  returns or raises; it is consulted only when no range is given.
\<close>

definition load_all_cycles ::
  "container \<Rightarrow> string \<Rightarrow> loader \<Rightarrow> (int \<times> int) option \<Rightarrow> error + int \<times> int \<Rightarrow>
     error + container" where
  "load_all_cycles self data_path ld cycle_range detected =
     (case (case cycle_range of None \<Rightarrow> detected | Some r \<Rightarrow> Inr r) of
        Inl e \<Rightarrow> Inl e
      | Inr (start, end) \<Rightarrow>
          (case load_loop ld [start..end] (container_cycles self) of
             Inl e \<Rightarrow> Inl e
           | Inr cs \<Rightarrow>
               Inr \<lparr>container_cycles = cs,
                    container_metadata =
                      AList.update ''loaded_cycles'' (MetaCycles (map fst cs))
                        (AList.update ''cycle_range'' (MetaRange start end)
                           (AList.update ''data_path'' (MetaPath data_path)
                              (container_metadata self)))\<rparr>))"

section \<open>Shared numeric routines of the analyzers\<close>

text \<open>
  \<open>CapacityConfig\<close> of config/models.py with the enum \<open>CapacityMode\<close> of
  config/enums.py.
\<close>

datatype CapacityMode = AUTO_CRATE | MANUAL

record CapacityConfig =
  mode :: CapacityMode
  c_rate :: real
  manual_capacity :: real

text \<open>
  \<open>Series.diff()\<close>: the first entry is NaN, every other entry is the value minus
  its predecessor. \<open>fillna(v)\<close> replaces NaN by \<open>v\<close>.
\<close>

fun series_diff :: "real list \<Rightarrow> real option list" where
  "series_diff [] = []"
| "series_diff (x # xs) = None # map2 (\<lambda>a b. Some (b - a)) (x # xs) xs"

definition fillna :: "real \<Rightarrow> real option list \<Rightarrow> real list" where
  "fillna v = map (\<lambda>d. case d of None \<Rightarrow> v | Some x \<Rightarrow> x)"

text \<open>The column \<open>df["TimeDiff"] = df["TimeMin"].diff().fillna(0)\<close>.\<close>

definition time_diff :: "table \<Rightarrow> real list" where
  "time_diff df = fillna 0 (series_diff (map TimeMin df))"

text \<open>
  \<open>_calculate_cycle_capacity\<close> (the same body in individual.py, linked.py and
  reliability.py). The column \<open>TimeDiff\<close> is added to the whole table first; the
  discharge and charge subsets are selected afterwards and keep the \<open>TimeDiff\<close> of
  their rows. The result dictionary has three fixed keys and is a record.
\<close>

record capacity_result =
  discharge_capacity :: real
  charge_capacity :: real
  efficiency :: real

definition capacity_base_of :: "CapacityConfig \<Rightarrow> real" where
  "capacity_base_of cfg = (if mode cfg = MANUAL then manual_capacity cfg else 58)"

definition calculate_cycle_capacity :: "CapacityConfig \<Rightarrow> table \<Rightarrow> capacity_result" where
  "calculate_cycle_capacity cfg df =
     (let rows = zip df (time_diff df);
          capacity_base = capacity_base_of cfg;
          discharge = filter (\<lambda>(r, d). Crate r < 0) rows;
          discharge_cap =
            (\<Sum>(r, d) \<leftarrow> discharge. \<bar>Crate r * d\<bar>) * capacity_base;
          charge = filter (\<lambda>(r, d). Crate r > 0) rows;
          charge_cap = (\<Sum>(r, d) \<leftarrow> charge. Crate r * d) * capacity_base;
          eff = (if charge_cap > 0 then discharge_cap / charge_cap * 100 else 0)
      in \<lparr>discharge_capacity = discharge_cap, charge_capacity = charge_cap,
          efficiency = eff\<rparr>)"

text \<open>\<open>BaseAnalyzer.get_capacity\<close> (analysis/base_analyzer.py).\<close>

definition get_capacity :: "CapacityConfig \<Rightarrow> cycles \<Rightarrow> int \<Rightarrow> error + real" where
  "get_capacity cfg cs cycle_no =
     (case get_cycle cs cycle_no of
        Inl e \<Rightarrow> Inl e
      | Inr df \<Rightarrow>
          let rows = zip df (time_diff df);
              discharge = filter (\<lambda>(r, d). Crate r < 0) rows
          in if length discharge = 0 then Inr 0
             else Inr ((\<Sum>(r, d) \<leftarrow> discharge. \<bar>Crate r * d\<bar>) * capacity_base_of cfg))"

text \<open>
  \<open>_normalize_capacity\<close> (individual.py, linked.py): its argument is the charge or
  the discharge subset, and \<open>diff\<close> is taken inside that subset.
\<close>

fun cumsum_from :: "real \<Rightarrow> real list \<Rightarrow> real list" where
  "cumsum_from acc [] = []"
| "cumsum_from acc (x # xs) = (acc + x) # cumsum_from (acc + x) xs"

definition cumsum :: "real list \<Rightarrow> real list" where
  "cumsum xs = cumsum_from 0 xs"

definition capacity_cumulative :: "table \<Rightarrow> real list" where
  "capacity_cumulative df = cumsum (map2 (\<lambda>r d. \<bar>Crate r\<bar> * d) df (time_diff df))"

definition normalize_capacity :: "table \<Rightarrow> real list" where
  "normalize_capacity df =
     (if length df = 0 then []
      else
        let cum = capacity_cumulative df;
            max_capacity = fold max (tl cum) (hd cum)
        in if max_capacity > 0 then map (\<lambda>c. c / max_capacity * 100) cum
           else replicate (length df) 0)"

text \<open>
  \<open>Series.quantile(q)\<close> with pandas' default linear interpolation over the values
  that are not NaN: NaN (\<open>None\<close>) when there is none, otherwise the value at the
  fractional position \<open>q * (m - 1)\<close> of the sorted values.
\<close>

definition quantile :: "real \<Rightarrow> real option list \<Rightarrow> real option" where
  "quantile q col =
     (let vs = sort (concat (map (\<lambda>d. case d of None \<Rightarrow> [] | Some x \<Rightarrow> [x]) col));
          m = length vs
      in if m = 0 then None
         else
           let pos = q * real (m - 1);
               lo = nat \<lfloor>pos\<rfloor>;
               frac = pos - real lo
           in if lo + 1 < m then Some (vs ! lo + frac * (vs ! (lo + 1) - vs ! lo))
              else Some (vs ! lo))"

text \<open>\<open>x > threshold\<close> on a column entry: false when either side is NaN.\<close>

definition exceeds :: "real option \<Rightarrow> real option \<Rightarrow> bool" where
  "exceeds d threshold =
     (case (d, threshold) of (Some x, Some t) \<Rightarrow> x > t | _ \<Rightarrow> False)"

text \<open>
  A DataFrame carries an index: one integer label per row, all distinct. The tables of
  this model are lists of rows; where a routine reads rows by label, the labels are
  given beside the table as the list \<open>index\<close>, one label per row in row order.
  \<open>df.loc[label, column]\<close> reads the row that carries the label and raises
  \<open>KeyError\<close> when no row does. The default index of a table of \<open>n\<close> rows is
  \<open>0 .. n - 1\<close>.
\<close>

definition loc :: "int list \<Rightarrow> table \<Rightarrow> int \<Rightarrow> error + row" where
  "loc index df label =
     (case map_of (zip index df) label of
        None \<Rightarrow> Inl (LabelNotFound label)
      | Some r \<Rightarrow> Inr r)"

definition default_index :: "table \<Rightarrow> int list" where
  "default_index df = map int [0..<length df]"

text \<open>
  \<open>BaseAnalyzer.calculate_ir\<close>. \<open>diff\<close>, \<open>quantile\<close> and the selection of the
  pulse candidates work on the rows in order, so the candidates are positions.
  \<open>pulse_points.index[0]\<close> is the label of the first candidate,
  \<open>pulse_start + 10\<close> is arithmetic on that label, \<open>len(df) - 1\<close> is the position
  of the last row, and the two rows are read by label with \<open>df.loc\<close>, the one at
  \<open>pulse_end\<close> first.
\<close>

definition current_diff :: "table \<Rightarrow> real option list" where
  "current_diff df = map (map_option abs) (series_diff (map Crate df))"

definition pulse_points :: "table \<Rightarrow> nat list" where
  "pulse_points df =
     (let cd = current_diff df; threshold = quantile (95 / 100) cd
      in filter (\<lambda>i. exceeds (cd ! i) threshold) [0..<length df])"

definition calculate_ir :: "int list \<Rightarrow> table \<Rightarrow> error + real" where
  "calculate_ir index df =
     (let pts = pulse_points df
      in if length pts < 2 then Inr 0
         else
           let pulse_start = index ! hd pts;
               pulse_end = min (pulse_start + 10) (int (length df) - 1)
           in case loc index df pulse_end of
                Inl e \<Rightarrow> Inl e
              | Inr row_end \<Rightarrow>
                  (case loc index df pulse_start of
                     Inl e \<Rightarrow> Inl e
                   | Inr row_start \<Rightarrow>
                       let v_diff = Vol row_end - Vol row_start;
                           i_diff = Crate row_end - Crate row_start
                       in if \<bar>i_diff\<bar> < 1 / 100 then Inr 0
                          else Inr (\<bar>v_diff / i_diff\<bar> * 1000)))"

text \<open>
  The resistance in the words of the specification: the pulse start is the first row
  whose change exceeds the threshold, the pulse end is the row 10 rows later, or the last
  row if fewer rows remain, and the result is \<open>|\<Delta>Vol| / |\<Delta>Crate| * 1000\<close> between
  these two rows, or 0 with fewer than two candidates or a current change below 0.01.
  Rows are counted in the table. It is compared with \<open>calculate_ir\<close> below.
\<close>

definition spec_calculate_ir :: "table \<Rightarrow> real" where
  "spec_calculate_ir df =
     (let pts = pulse_points df
      in if length pts < 2 then 0
         else
           let pulse_start = hd pts;
               pulse_end = min (pulse_start + 10) (length df - 1);
               v_diff = Vol (df ! pulse_end) - Vol (df ! pulse_start);
               i_diff = Crate (df ! pulse_end) - Crate (df ! pulse_start)
           in if \<bar>i_diff\<bar> < 1 / 100 then 0
              else \<bar>v_diff\<bar> / \<bar>i_diff\<bar> * 1000)"

text \<open>
  The container of this model stores the rows of a table without their labels. Where an
  analyzer passes a stored table to \<open>calculate_ir\<close>, the model takes the resistance
  at the default index, the labels of a table from which the loader dropped no row; there
  \<open>calculate_ir\<close> raises nothing (\<open>calculate_ir_default_index\<close> below).
\<close>

definition stored_ir :: "table \<Rightarrow> real" where
  "stored_ir df = (case calculate_ir (default_index df) df of Inr ir \<Rightarrow> ir | Inl e \<Rightarrow> 0)"

text \<open>
  A \<open>SaveData\<close> file of 24 rows, one per minute: the cell rests at 4 V, carries a
  discharge pulse of 1 C in the row \<open>pulse\<close>, where the voltage is 0.1 V lower, and
  rests again. The voltage cell of the row \<open>gap\<close> is empty.
\<close>

definition pulse_frame :: "nat \<Rightarrow> nat \<Rightarrow> frame" where
  "pulse_frame pulse gap =
     \<lparr>columns = [''TimeMin'', ''Vol'', ''Crate''],
      body = map (\<lambda>i. \<lparr>cell_time = real i,
                         cell_voltage =
                           (if i = gap then None else Some (if i = pulse then 39 / 10 else 4)),
                         cell_current = Some (if i = pulse then - 1 else 0),
                         cell_condition = None\<rparr>)
               [0..<24]\<rparr>"

text \<open>
  The absolute change of the signed current from the row before to row \<open>i\<close>.
\<close>

definition row_change :: "table \<Rightarrow> nat \<Rightarrow> real" where
  "row_change df i = \<bar>Crate (df ! i) - Crate (df ! (i - 1))\<bar>"

text \<open>
  The discharge and the charge subset of a table, \<open>df[df["Crate"] < 0]\<close> and
  \<open>df[df["Crate"] > 0]\<close>, as \<open>analyze\<close> passes them to
  \<open>_normalize_capacity\<close>.
\<close>

definition discharge_rows :: "table \<Rightarrow> table" where
  "discharge_rows df = filter (\<lambda>r. Crate r < 0) df"

definition charge_rows :: "table \<Rightarrow> table" where
  "charge_rows df = filter (\<lambda>r. Crate r > 0) df"

text \<open>
  The time step of row \<open>i\<close> inside a table: its elapsed time minus that of the row
  before it in the same table.
\<close>

definition time_step :: "table \<Rightarrow> nat \<Rightarrow> real" where
  "time_step df i = TimeMin (df ! i) - TimeMin (df ! (i - 1))"

text \<open>
  The capacity of a subset in the words of the specification: the sum over consecutive
  rows of the subset of \<open>|current| * \<Delta>time\<close>, the subset's first row having
  \<open>\<Delta>time = 0\<close>, times the capacity basis. It is compared with
  \<open>calculate_cycle_capacity\<close> below.
\<close>

definition spec_subset_capacity :: "CapacityConfig \<Rightarrow> table \<Rightarrow> real" where
  "spec_subset_capacity cfg sub =
     (\<Sum>(r, d) \<leftarrow> zip sub (time_diff sub). \<bar>Crate r\<bar> * d) * capacity_base_of cfg"

section \<open>Linked cycle analyzer (analysis/cycle/linked.py)\<close>

text \<open>
  One row of the summary built by \<open>LinkedCycleAnalyzer.analyze\<close>. The manifest
  \<open>tsv_data\<close> is the list of its \<open>(cyclepath, cyclename)\<close> rows in file order;
  \<open>containers\<close> is the dictionary from path to container. The voltage profiles the
  method also collects do not enter the summary and are left out.
\<close>

record summary_row =
  Path :: string
  Path_Name :: string
  Local_Cycle :: int
  Global_Cycle :: int
  Discharge_Capacity :: real
  Charge_Capacity :: real
  Efficiency :: real
  DCIR :: real

definition path_summary ::
  "CapacityConfig \<Rightarrow> string \<Rightarrow> string \<Rightarrow> cycles \<Rightarrow> int \<Rightarrow> summary_row list" where
  "path_summary cfg cyclepath cyclename container cumulative_cycle_offset =
     map (\<lambda>local_cycle_no.
            let df = stored container local_cycle_no;
                capacity_result = calculate_cycle_capacity cfg df;
                dcir = stored_ir df;
                global_cycle_no = cumulative_cycle_offset + local_cycle_no
            in \<lparr>Path = cyclepath, Path_Name = cyclename,
                Local_Cycle = local_cycle_no, Global_Cycle = global_cycle_no,
                Discharge_Capacity = discharge_capacity capacity_result,
                Charge_Capacity = charge_capacity capacity_result,
                Efficiency = efficiency capacity_result, DCIR = dcir\<rparr>)
         (get_loaded_cycle_numbers container)"

fun linked_analyze_loop ::
  "CapacityConfig \<Rightarrow> (string \<times> cycles) list \<Rightarrow> (string \<times> string) list \<Rightarrow>
     summary_row list \<Rightarrow> int \<Rightarrow> summary_row list \<times> int" where
  "linked_analyze_loop cfg containers [] all_summary_data cumulative_cycle_offset =
     (all_summary_data, cumulative_cycle_offset)"
| "linked_analyze_loop cfg containers ((cyclepath, cyclename) # tsv_rows)
     all_summary_data cumulative_cycle_offset =
     (case map_of containers cyclepath of
        None \<Rightarrow>
          linked_analyze_loop cfg containers tsv_rows all_summary_data cumulative_cycle_offset
      | Some container \<Rightarrow>
          let loaded_cycles = get_loaded_cycle_numbers container;
              rows = path_summary cfg cyclepath cyclename container cumulative_cycle_offset;
              offset = (if loaded_cycles \<noteq> []
                        then max cumulative_cycle_offset
                               (fold max (tl loaded_cycles) (hd loaded_cycles))
                        else cumulative_cycle_offset)
          in linked_analyze_loop cfg containers tsv_rows (all_summary_data @ rows) offset)"

definition linked_analyze ::
  "CapacityConfig \<Rightarrow> (string \<times> cycles) list \<Rightarrow> (string \<times> string) list \<Rightarrow> summary_row list" where
  "linked_analyze cfg containers tsv_data = fst (linked_analyze_loop cfg containers tsv_data [] 0)"

section \<open>Reliability cycle analyzer (analysis/cycle/reliability.py)\<close>

text \<open>
  One row of \<open>capacity_df\<close>, with the columns \<open>Cycle\<close>,
  \<open>Discharge_Capacity\<close>, \<open>Charge_Capacity\<close> and \<open>Efficiency\<close>.
\<close>

record capacity_row =
  Cycle :: int
  Discharge :: real
  Charge :: real
  Eff :: real

text \<open>
  The result dictionaries of the analyzer have string keys and numeric values; the order
  of the entries is the order in which the source writes them. A subscript \<open>d[k]\<close>
  raises \<open>KeyError\<close> on a missing key.
\<close>

type_synonym pydict = "(string \<times> real) list"

definition subscript :: "pydict \<Rightarrow> string \<Rightarrow> error + real" where
  "subscript d k = (case map_of d k of None \<Rightarrow> Inl (MissingKey k) | Some v \<Rightarrow> Inr v)"

text \<open>
  The slope and the squared correlation of \<open>scipy.stats.linregress(x, y)\<close>: ordinary
  least squares from the biased covariances, \<open>slope = ssxym / ssxm\<close>; the call raises
  \<open>ValueError\<close> when all \<open>x\<close> are identical. Its p-value comes from the Student
  distribution, which is not modelled: \<open>analyze_capacity_fade\<close> takes the p-value that
  the call reports as its first argument.
\<close>

definition mean :: "real list \<Rightarrow> real" where
  "mean xs = sum_list xs / real (length xs)"

definition ssxm :: "real list \<Rightarrow> real" where
  "ssxm x = mean (map (\<lambda>a. (a - mean x) * (a - mean x)) x)"

definition ssxym :: "real list \<Rightarrow> real list \<Rightarrow> real" where
  "ssxym x y = mean (map2 (\<lambda>a b. (a - mean x) * (b - mean y)) x y)"

definition linregress :: "real list \<Rightarrow> real list \<Rightarrow> error + real \<times> real" where
  "linregress x y =
     (if ssxm x = 0 then Inl IdenticalX
      else
        let slope = ssxym x y / ssxm x;
            r_squared = (if ssxm y = 0 then 0
                         else ssxym x y * ssxym x y / (ssxm x * ssxm y))
        in Inr (slope, r_squared))"

definition analyze_capacity_fade :: "real \<Rightarrow> capacity_row list \<Rightarrow> error + pydict" where
  "analyze_capacity_fade p_value capacity_df =
     (if length capacity_df < 2
      then Inr [(''initial_capacity'', 0), (''final_capacity'', 0), (''absolute_fade'', 0),
                (''relative_fade'', 0), (''fade_per_cycle'', 0)]
      else
        let initial_capacity = Discharge (hd capacity_df);
            final_capacity = Discharge (last capacity_df);
            absolute_fade = initial_capacity - final_capacity;
            relative_fade = (if initial_capacity > 0
                             then absolute_fade / initial_capacity * 100 else 0);
            cycle_count = length capacity_df;
            fade_per_cycle = (if cycle_count > 0 then relative_fade / real cycle_count else 0);
            x = map (\<lambda>r. real_of_int (Cycle r)) capacity_df;
            y = map Discharge capacity_df
        in case linregress x y of
             Inl e \<Rightarrow> Inl e
           | Inr (slope, r_squared) \<Rightarrow>
               Inr [(''initial_capacity'', initial_capacity),
                    (''final_capacity'', final_capacity),
                    (''absolute_fade'', absolute_fade),
                    (''relative_fade'', relative_fade),
                    (''fade_per_cycle'', fade_per_cycle),
                    (''linear_slope'', slope),
                    (''r_squared'', r_squared),
                    (''p_value'', p_value)])"

text \<open>
  \<open>_predict_lifecycle\<close>. Python's \<open>int(x)\<close> on a float truncates towards zero.
  The source forms the quotient in double precision and the model over the real numbers;
  where the exact quotient is an integer or lies next to one, the two can truncate to
  neighbouring integers (capacities 54, 53, 53, 52 at cycles 1 to 4: 17 in double
  precision, 18 over the real numbers). The theorems below rest on which subscripts are
  read, which branch is taken and which keys the result has, not on this number.
\<close>

definition py_int :: "real \<Rightarrow> int" where
  "py_int x = (if 0 \<le> x then \<lfloor>x\<rfloor> else \<lceil>x\<rceil>)"

definition predict_lifecycle :: "capacity_row list \<Rightarrow> pydict \<Rightarrow> error + pydict" where
  "predict_lifecycle capacity_df fade_analysis =
     (case subscript fade_analysis ''initial_capacity'' of
        Inl e \<Rightarrow> Inl e
      | Inr initial_capacity \<Rightarrow>
     (case subscript fade_analysis ''linear_slope'' of
        Inl e \<Rightarrow> Inl e
      | Inr linear_slope \<Rightarrow>
          if initial_capacity \<le> 0 \<or> linear_slope \<ge> 0
          then Inr [(''eol_capacity'', 0), (''predicted_eol_cycle'', 0),
                    (''remaining_cycles'', 0)]
          else
            let eol_capacity = initial_capacity * (8 / 10);
                predicted_eol_cycle =
                  real_of_int (py_int ((eol_capacity - initial_capacity) / linear_slope))
            in if capacity_df = [] then Inl OutOfBounds
               else
                 let current_cycle = real_of_int (Cycle (last capacity_df));
                     remaining_cycles = max 0 (predicted_eol_cycle - current_cycle)
                 in Inr [(''eol_capacity'', eol_capacity),
                         (''predicted_eol_cycle'', predicted_eol_cycle),
                         (''current_cycle'', current_cycle),
                         (''remaining_cycles'', remaining_cycles)]))"

text \<open>
  \<open>get_summary_report\<close> reads \<open>self.results\<close>, here a record of the three
  dictionaries and the optional grade. The report is a text template filled with the
  values of twelve subscripts and the grade; the model returns these values in the order
  in which the template reads them, or the \<open>KeyError\<close> of the first subscript that
  fails.
\<close>

record results =
  fade_analysis :: pydict
  statistical_metrics :: pydict
  lifecycle_prediction :: pydict
  reliability_grade :: "string option"

fun subscripts :: "pydict \<Rightarrow> string list \<Rightarrow> error + real list" where
  "subscripts d [] = Inr []"
| "subscripts d (k # ks) =
     (case subscript d k of
        Inl e \<Rightarrow> Inl e
      | Inr v \<Rightarrow> (case subscripts d ks of Inl e \<Rightarrow> Inl e | Inr vs \<Rightarrow> Inr (v # vs)))"

definition get_summary_report :: "results \<Rightarrow> error + real list \<times> string" where
  "get_summary_report res =
     (let fade = fade_analysis res;
          stats = statistical_metrics res;
          lifecycle = lifecycle_prediction res;
          grade = (case reliability_grade res of None \<Rightarrow> ''Unknown'' | Some g \<Rightarrow> g)
      in case subscripts fade [''initial_capacity'', ''final_capacity'', ''relative_fade'',
                               ''fade_per_cycle''] of
           Inl e \<Rightarrow> Inl e
         | Inr fs \<Rightarrow>
        (case subscripts stats [''capacity_mean'', ''capacity_std'', ''capacity_cv'',
                                ''efficiency_mean''] of
           Inl e \<Rightarrow> Inl e
         | Inr ss \<Rightarrow>
        (case subscripts lifecycle [''eol_capacity'', ''predicted_eol_cycle'',
                                    ''current_cycle'', ''remaining_cycles''] of
           Inl e \<Rightarrow> Inl e
         | Inr ls \<Rightarrow> Inr (fs @ ss @ ls, grade))))"

section \<open>The container over a store of objects\<close>

text \<open>\<open>get_metadata\<close> at the level of values.\<close>

definition get_metadata :: "container \<Rightarrow> (string \<times> meta_value) list" where
  "get_metadata self = container_metadata self"

text \<open>
  Python objects are shared by reference, and \<open>copy()\<close> makes a new object. To
  state which objects a caller can reach, the container is modelled a second time over a
  store: a list of objects, the address of an object being its position, and allocation
  appending to the list. Strings and tuples are immutable and stay values; a DataFrame,
  a list and a dictionary handed to a caller are objects in the store. The two
  dictionaries \<open>_cycles\<close> and \<open>_metadata\<close> never leave the container, so they are
  fields holding references: \<open>_cycles\<close> maps a cycle number to the address of its
  DataFrame, and the entry \<open>loaded_cycles\<close> of \<open>_metadata\<close> is the address of the
  list built by \<open>list(self._cycles.keys())\<close>.
\<close>

datatype meta_ref = RefPath string | RefRange int int | RefCycles nat

datatype pyobject =
    DataFrame table
  | PyList "int list"
  | CycleDict "(int \<times> nat) list"
  | MetaDict "(string \<times> meta_ref) list"

type_synonym heap = "pyobject list"

record hcontainer =
  h_cycles :: "(int \<times> nat) list"
  h_metadata :: "(string \<times> meta_ref) list"

text \<open>
  Allocation, and reading a DataFrame or a list at an address (empty when the address
  holds another kind of object). \<open>copy_df\<close> is \<open>DataFrame.copy()\<close>: a new object
  with the same rows.
\<close>

definition alloc :: "heap \<Rightarrow> pyobject \<Rightarrow> nat \<times> heap" where
  "alloc h obj = (length h, h @ [obj])"

definition df_at :: "heap \<Rightarrow> nat \<Rightarrow> table" where
  "df_at h a = (if a < length h then (case h ! a of DataFrame t \<Rightarrow> t | _ \<Rightarrow> []) else [])"

definition list_at :: "heap \<Rightarrow> nat \<Rightarrow> int list" where
  "list_at h a = (if a < length h then (case h ! a of PyList xs \<Rightarrow> xs | _ \<Rightarrow> []) else [])"

definition copy_df :: "heap \<Rightarrow> nat \<Rightarrow> nat \<times> heap" where
  "copy_df h a = alloc h (DataFrame (df_at h a))"

text \<open>
  The read operations over the store. Each returns its result, an address or an error,
  together with the store it leaves. \<open>get_cycle_range\<close> overwrites the \<open>TimeMin\<close>
  column in the copy it has just made; \<open>get_cycles\<close> returns a new dictionary of
  copies; \<open>get_metadata\<close> returns \<open>self._metadata.copy()\<close>, a new dictionary with
  the same entries.
\<close>

definition h_has_cycle :: "hcontainer \<Rightarrow> int \<Rightarrow> bool" where
  "h_has_cycle self cycle_no = (cycle_no \<in> set (map fst (h_cycles self)))"

definition h_stored :: "hcontainer \<Rightarrow> int \<Rightarrow> nat" where
  "h_stored self cycle_no = (case map_of (h_cycles self) cycle_no of Some a \<Rightarrow> a | None \<Rightarrow> 0)"

definition h_get_cycle :: "hcontainer \<Rightarrow> heap \<Rightarrow> int \<Rightarrow> (error + nat) \<times> heap" where
  "h_get_cycle self h cycle_no =
     (if \<not> h_has_cycle self cycle_no then (Inl (CycleNotFound cycle_no), h)
      else case copy_df h (h_stored self cycle_no) of (a, h') \<Rightarrow> (Inr a, h'))"

fun h_get_cycle_range_loop ::
  "hcontainer \<Rightarrow> int list \<Rightarrow> nat list \<Rightarrow> real option \<Rightarrow> heap \<Rightarrow> nat list \<times> heap" where
  "h_get_cycle_range_loop self [] dfs cumulative_time h = (dfs, h)"
| "h_get_cycle_range_loop self (cycle_no # rest) dfs cumulative_time h =
     (if \<not> h_has_cycle self cycle_no
      then h_get_cycle_range_loop self rest dfs cumulative_time h
      else
        case copy_df h (h_stored self cycle_no) of
          (df, h1) \<Rightarrow>
            let h2 = (if positive cumulative_time
                      then h1[df := DataFrame (shift_time (the cumulative_time) (df_at h1 df))]
                      else h1)
            in h_get_cycle_range_loop self rest (dfs @ [df])
                 (series_max (map TimeMin (df_at h2 df))) h2)"

definition h_get_cycle_range ::
  "hcontainer \<Rightarrow> heap \<Rightarrow> int \<Rightarrow> int \<Rightarrow> (error + nat) \<times> heap" where
  "h_get_cycle_range self h start end =
     (case h_get_cycle_range_loop self [start..end] [] (Some 0) h of
        (dfs, h') \<Rightarrow>
          if dfs = [] then (Inl (NoCyclesInRange start end), h')
          else case alloc h' (DataFrame (concat (map (df_at h') dfs))) of
                 (merged_df, h'') \<Rightarrow> (Inr merged_df, h''))"

fun h_get_cycles_loop ::
  "hcontainer \<Rightarrow> int list \<Rightarrow> (int \<times> nat) list \<Rightarrow> int list \<Rightarrow> heap \<Rightarrow>
     ((int \<times> nat) list \<times> int list) \<times> heap" where
  "h_get_cycles_loop self [] result missing_cycles h = ((result, missing_cycles), h)"
| "h_get_cycles_loop self (cycle_no # cycle_list) result missing_cycles h =
     (if h_has_cycle self cycle_no
      then case copy_df h (h_stored self cycle_no) of
             (a, h') \<Rightarrow>
               h_get_cycles_loop self cycle_list (AList.update cycle_no a result)
                 missing_cycles h'
      else h_get_cycles_loop self cycle_list result (missing_cycles @ [cycle_no]) h)"

definition h_get_cycles :: "hcontainer \<Rightarrow> heap \<Rightarrow> int list \<Rightarrow> (error + nat) \<times> heap" where
  "h_get_cycles self h cycle_list =
     (case h_get_cycles_loop self cycle_list [] [] h of
        ((result, missing_cycles), h') \<Rightarrow>
          if missing_cycles \<noteq> [] then (Inl (CyclesNotFound missing_cycles), h')
          else case alloc h' (CycleDict result) of (d, h'') \<Rightarrow> (Inr d, h''))"

definition h_get_metadata :: "hcontainer \<Rightarrow> heap \<Rightarrow> nat \<times> heap" where
  "h_get_metadata self h = alloc h (MetaDict (h_metadata self))"

text \<open>
  The content of the container in a store: every reference replaced by the object it
  points to. This is the container of the value-level model above.
\<close>

fun resolve :: "heap \<Rightarrow> meta_ref \<Rightarrow> meta_value" where
  "resolve h (RefPath p) = MetaPath p"
| "resolve h (RefRange a b) = MetaRange a b"
| "resolve h (RefCycles l) = MetaCycles (list_at h l)"

definition view :: "hcontainer \<Rightarrow> heap \<Rightarrow> container" where
  "view self h =
     \<lparr>container_cycles = map (\<lambda>(n, a). (n, df_at h a)) (h_cycles self),
      container_metadata = map (\<lambda>(k, v). (k, resolve h v)) (h_metadata self)\<rparr>"

text \<open>
  The addresses the container holds, a container whose addresses all lie in the store,
  and a store that extends another without changing any of its objects.
\<close>

fun meta_refs :: "(string \<times> meta_ref) list \<Rightarrow> nat list" where
  "meta_refs [] = []"
| "meta_refs ((k, RefCycles l) # d) = l # meta_refs d"
| "meta_refs ((k, v) # d) = meta_refs d"

definition owned :: "hcontainer \<Rightarrow> nat list" where
  "owned self = map snd (h_cycles self) @ meta_refs (h_metadata self)"

definition well_formed :: "hcontainer \<Rightarrow> heap \<Rightarrow> bool" where
  "well_formed self h = (\<forall>a \<in> set (owned self). a < length h)"

definition preserved :: "heap \<Rightarrow> heap \<Rightarrow> bool" where
  "preserved h h' = (length h \<le> length h' \<and> take (length h) h' = h)"


text \<open>
  \<open>load_all_cycles\<close> over the store: each loaded DataFrame is a new object, and so is
  the list of loaded cycle numbers.
\<close>

fun h_load_loop ::
  "loader \<Rightarrow> int list \<Rightarrow> (int \<times> nat) list \<Rightarrow> heap \<Rightarrow> (error + (int \<times> nat) list) \<times> heap" where
  "h_load_loop ld [] cs h = (Inr cs, h)"
| "h_load_loop ld (cycle_no # rest) cs h =
     (case load_cycle ld cycle_no of
        Inr df \<Rightarrow>
          (case alloc h (DataFrame df) of
             (a, h') \<Rightarrow> h_load_loop ld rest (AList.update cycle_no a cs) h')
      | Inl e \<Rightarrow>
          if exn_class_of e = FileNotFoundError then h_load_loop ld rest cs h
          else (Inl e, h))"

definition h_load_all_cycles ::
  "hcontainer \<Rightarrow> heap \<Rightarrow> string \<Rightarrow> loader \<Rightarrow> (int \<times> int) option \<Rightarrow> error + int \<times> int \<Rightarrow>
     (error + hcontainer) \<times> heap" where
  "h_load_all_cycles self h data_path ld cycle_range detected =
     (case (case cycle_range of None \<Rightarrow> detected | Some r \<Rightarrow> Inr r) of
        Inl e \<Rightarrow> (Inl e, h)
      | Inr (start, end) \<Rightarrow>
          (case h_load_loop ld [start..end] (h_cycles self) h of
             (Inl e, h') \<Rightarrow> (Inl e, h')
           | (Inr cs, h') \<Rightarrow>
               (case alloc h' (PyList (map fst cs)) of
                  (l, h'') \<Rightarrow>
                    (Inr \<lparr>h_cycles = cs,
                          h_metadata =
                            AList.update ''loaded_cycles'' (RefCycles l)
                              (AList.update ''cycle_range'' (RefRange start end)
                                 (AList.update ''data_path'' (RefPath data_path)
                                    (h_metadata self)))\<rparr>, h''))))"

text \<open>
  What a caller can do with a returned mapping \<open>md\<close>:
  \<open>md[key].append(x)\<close> appends to the list object that the entry refers to.
\<close>

definition list_append :: "heap \<Rightarrow> nat \<Rightarrow> int \<Rightarrow> heap" where
  "list_append h l x = h[l := PyList (list_at h l @ [x])]"

definition append_through_mapping :: "heap \<Rightarrow> nat \<Rightarrow> string \<Rightarrow> int \<Rightarrow> heap" where
  "append_through_mapping h m key x =
     (case h ! m of
        MetaDict d \<Rightarrow>
          (case map_of d key of Some (RefCycles l) \<Rightarrow> list_append h l x | _ \<Rightarrow> h)
      | _ \<Rightarrow> h)"

section \<open>Properties of the container lookups\<close>

lemma has_cycle_map_of: "has_cycle cs n \<longleftrightarrow> map_of cs n \<noteq> None"
  by (simp add: has_cycle_def map_of_eq_None_iff)

lemma get_cycles_loop_missing:
  "snd (get_cycles_loop cs ns result missing) =
     missing @ filter (\<lambda>n. \<not> has_cycle cs n) ns"
  by (induction ns arbitrary: result missing) simp_all

lemma get_cycles_loop_result:
  "map_of (fst (get_cycles_loop cs ns result missing)) k =
     (if k \<in> set ns \<and> has_cycle cs k then map_of cs k else map_of result k)"
proof (induction ns arbitrary: result missing)
  case Nil
  show ?case by simp
next
  case (Cons n ns)
  show ?case
    by (auto simp: Cons.IH update_conv' has_cycle_map_of stored_def split: option.splits)
qed

lemma get_cycles_loop_keys:
  "fst ` set (fst (get_cycles_loop cs ns result missing)) =
     fst ` set result \<union> {n \<in> set ns. has_cycle cs n}"
  by (induction ns arbitrary: result missing) (auto simp: dom_update)

lemma get_cycles_unfold:
  "get_cycles cs ns =
     (if filter (\<lambda>k. \<not> has_cycle cs k) ns \<noteq> []
      then Inl (CyclesNotFound (filter (\<lambda>k. \<not> has_cycle cs k) ns))
      else Inr (fst (get_cycles_loop cs ns [] [])))"
proof (cases "get_cycles_loop cs ns [] []")
  case (Pair result missing)
  have "missing = filter (\<lambda>k. \<not> has_cycle cs k) ns"
    using get_cycles_loop_missing [of cs ns "[]" "[]"] Pair by simp
  with Pair show ?thesis
    by (simp add: get_cycles_def)
qed

text \<open>
  C8. Requesting a cycle number that was never loaded fails with the not-found error
  carrying exactly that number. A batch lookup with at least one number that was never
  loaded fails with the not-found error carrying all the missing numbers of the request
  (in request order), not only the first; when every requested number is loaded it
  succeeds with a mapping whose keys are the requested numbers, each bound to the stored
  table.
\<close>

theorem C8_not_found_names_missing:
  "(\<not> has_cycle cs n \<longrightarrow> get_cycle cs n = Inl (CycleNotFound n)) \<and>
   ((\<exists>k \<in> set ns. \<not> has_cycle cs k) \<longrightarrow>
      get_cycles cs ns = Inl (CyclesNotFound (filter (\<lambda>k. \<not> has_cycle cs k) ns)) \<and>
      set (filter (\<lambda>k. \<not> has_cycle cs k) ns) = {k \<in> set ns. \<not> has_cycle cs k}) \<and>
   ((\<forall>k \<in> set ns. has_cycle cs k) \<longrightarrow>
      (\<exists>result. get_cycles cs ns = Inr result \<and>
         fst ` set result = set ns \<and>
         (\<forall>k \<in> set ns. map_of result k = map_of cs k \<and>
                         get_cycle cs k = Inr (the (map_of result k)))))"
proof (intro conjI impI)
  assume "\<not> has_cycle cs n"
  then show "get_cycle cs n = Inl (CycleNotFound n)"
    by (simp add: get_cycle_def)
next
  assume "\<exists>k \<in> set ns. \<not> has_cycle cs k"
  then have ne: "filter (\<lambda>k. \<not> has_cycle cs k) ns \<noteq> []"
    by (simp add: filter_empty_conv)
  then show "get_cycles cs ns = Inl (CyclesNotFound (filter (\<lambda>k. \<not> has_cycle cs k) ns))"
    by (simp add: get_cycles_unfold)
next
  show "set (filter (\<lambda>k. \<not> has_cycle cs k) ns) = {k \<in> set ns. \<not> has_cycle cs k}"
    by simp
next
  assume all: "\<forall>k \<in> set ns. has_cycle cs k"
  then have emp: "filter (\<lambda>k. \<not> has_cycle cs k) ns = []"
    by (simp add: filter_empty_conv)
  define result where "result = fst (get_cycles_loop cs ns [] [])"
  have r: "get_cycles cs ns = Inr result"
    using emp by (simp add: get_cycles_unfold result_def)
  have keys: "fst ` set result = set ns"
    using all by (auto simp: result_def get_cycles_loop_keys)
  have vals: "\<forall>k \<in> set ns. map_of result k = map_of cs k \<and>
                 get_cycle cs k = Inr (the (map_of result k))"
    using all
    by (auto simp: result_def get_cycles_loop_result get_cycle_def stored_def
          has_cycle_map_of split: option.splits)
  from r keys vals
  show "\<exists>result. get_cycles cs ns = Inr result \<and> fst ` set result = set ns \<and>
          (\<forall>k \<in> set ns. map_of result k = map_of cs k \<and>
                          get_cycle cs k = Inr (the (map_of result k)))"
    by blast
qed

theorem C8_not_found_names_missing_witness:
  "get_cycle [(1, [\<lparr>TimeMin = 0, Vol = 4, Crate = 1\<rparr>]), (3, [])] 2 = Inl (CycleNotFound 2) \<and>
   get_cycles [(1, [\<lparr>TimeMin = 0, Vol = 4, Crate = 1\<rparr>]), (3, [])] [1, 2, 3, 5]
     = Inl (CyclesNotFound [2, 5]) \<and>
   get_cycles [(1, [\<lparr>TimeMin = 0, Vol = 4, Crate = 1\<rparr>]), (3, [])] [3, 1]
     = Inr [(3, []), (1, [\<lparr>TimeMin = 0, Vol = 4, Crate = 1\<rparr>])]"
  using C8_not_found_names_missing
          [of "[(1, [\<lparr>TimeMin = 0, Vol = 4, Crate = 1\<rparr>]), (3, [])]" 2 "[1, 2, 3, 5]"]
        C8_not_found_names_missing
          [of "[(1, [\<lparr>TimeMin = 0, Vol = 4, Crate = 1\<rparr>]), (3, [])]" 2 "[3, 1]"]
  by (simp add: has_cycle_def get_cycles_def stored_def)

section \<open>Properties of the range concatenation\<close>

lemma series_max_Some:
  "xs \<noteq> [] \<Longrightarrow> series_max xs = Some (Max (set xs))"
proof (cases xs)
  case Nil
  then show "xs \<noteq> [] \<Longrightarrow> ?thesis" by simp
next
  case (Cons a list)
  then show ?thesis
    using Max.set_eq_fold [of a list] by (simp add: series_max_def)
qed

lemma sorted_shift_time:
  "sorted (map TimeMin df) \<Longrightarrow> sorted (map TimeMin (shift_time c df))"
  by (induction df) (auto simp: shift_time_def)

lemma get_cycle_range_loop_length:
  "length (concat (get_cycle_range_loop cs ns dfs c)) =
     length (concat dfs) + (\<Sum>n \<leftarrow> filter (has_cycle cs) ns. length (stored cs n))"
  by (induction ns arbitrary: dfs c) (simp_all add: Let_def shift_time_def)

lemma get_cycle_range_loop_empty:
  "get_cycle_range_loop cs ns dfs c = [] \<longleftrightarrow> dfs = [] \<and> (\<forall>n \<in> set ns. \<not> has_cycle cs n)"
  by (induction ns arbitrary: dfs c) (auto simp: Let_def)


lemma get_cycle_range_loop_sorted:
  assumes "sorted (map TimeMin (concat dfs))"
    and "\<forall>r \<in> set (concat dfs). TimeMin r \<le> c"
    and "0 \<le> c"
    and "\<forall>n \<in> set ns. has_cycle cs n \<longrightarrow> well_timed (stored cs n)"
  shows "sorted (map TimeMin (concat (get_cycle_range_loop cs ns dfs (Some c))))"
  using assms
proof (induction ns arbitrary: dfs c)
  case Nil
  then show ?case by simp
next
  case (Cons n ns)
  show ?case
  proof (cases "has_cycle cs n")
    case False
    with Cons show ?thesis by simp
  next
    case True
    define df where "df = (if 0 < c then shift_time c (stored cs n) else stored cs n)"
    have wt: "well_timed (stored cs n)" using Cons.prems(4) True by simp
    have c0: "\<not> 0 < c \<Longrightarrow> c = 0" using Cons.prems(3) by simp
    have ne: "df \<noteq> []" using wt by (auto simp: df_def well_timed_def shift_time_def)
    have lo: "\<forall>r \<in> set df. c \<le> TimeMin r"
      using wt c0 by (auto simp: df_def well_timed_def shift_time_def)
    have so: "sorted (map TimeMin df)"
      using wt by (simp add: df_def well_timed_def sorted_shift_time)
    define c' where "c' = Max (set (map TimeMin df))"
    have mx: "series_max (map TimeMin df) = Some c'"
      using ne by (simp add: series_max_Some c'_def)
    have hi: "\<forall>r \<in> set df. TimeMin r \<le> c'"
      by (simp add: c'_def)
    have cc': "c \<le> c'"
    proof -
      obtain r where "r \<in> set df" using ne by (cases df) auto
      then show ?thesis using lo hi by force
    qed
    have step: "get_cycle_range_loop cs (n # ns) dfs (Some c) =
                get_cycle_range_loop cs ns (dfs @ [df]) (Some c')"
    proof -
      have "get_cycle_range_loop cs (n # ns) dfs (Some c) =
            get_cycle_range_loop cs ns (dfs @ [df]) (series_max (map TimeMin df))"
        using True by (simp add: positive_def df_def Let_def)
      then show ?thesis by (simp only: mx)
    qed
    have s1: "sorted (map TimeMin (concat (dfs @ [df])))"
      using Cons.prems(1,2) so lo by (fastforce simp: sorted_append)
    have s2: "\<forall>r \<in> set (concat (dfs @ [df])). TimeMin r \<le> c'"
      using Cons.prems(2) hi cc' by fastforce
    have s3: "0 \<le> c'" using Cons.prems(3) cc' by simp
    show ?thesis
      unfolding step using Cons.IH [OF s1 s2 s3] Cons.prems(4) by simp
  qed
qed

lemma get_cycle_range_well_timed:
  assumes "\<forall>n \<in> set [a..b]. has_cycle cs n \<longrightarrow> well_timed (stored cs n)"
    and "\<exists>n \<in> set [a..b]. has_cycle cs n"
  shows "\<exists>df. get_cycle_range cs a b = Inr df \<and> sorted (map TimeMin df) \<and>
           length df = (\<Sum>n \<leftarrow> filter (has_cycle cs) [a..b]. length (stored cs n))"
proof -
  have ne: "get_cycle_range_loop cs [a..b] [] (Some 0) \<noteq> []"
    using assms(2) by (simp add: get_cycle_range_loop_empty)
  have so: "sorted (map TimeMin (concat (get_cycle_range_loop cs [a..b] [] (Some 0))))"
    by (rule get_cycle_range_loop_sorted) (use assms(1) in simp_all)
  show ?thesis
    using ne so by (simp add: get_cycle_range_def Let_def get_cycle_range_loop_length)
qed

lemma get_cycle_range_none_loaded:
  "(\<forall>n \<in> set [a..b]. \<not> has_cycle cs n) \<Longrightarrow>
     get_cycle_range cs a b = Inl (NoCyclesInRange a b)"
  by (simp add: get_cycle_range_def Let_def get_cycle_range_loop_empty)

text \<open>
  C3. \<open>get_cycle_range\<close> is documented to keep the time axis continuous over the
  concatenation. Cycles 1 and 3 hold rows at minutes 0, 10 and 0, 5; cycle 2 was loaded
  from a file without data rows. Every stored table is sorted and has no negative time,
  yet the elapsed-time column of the result is 0, 10, 0, 5: the maximum of the empty
  table is NaN, the test \<open>cumulative_time > 0\<close> is then false, and cycle 3 is
  appended without a shift. (With a row in every table of the range the column is
  non-decreasing and the row count is the sum of the row counts, by
  \<open>get_cycle_range_well_timed\<close>.)
\<close>

theorem C3_empty_table_breaks_time_axis:
  "get_cycle_range
     [(1, [\<lparr>TimeMin = 0, Vol = 4, Crate = 1\<rparr>, \<lparr>TimeMin = 10, Vol = 3, Crate = 1\<rparr>]),
      (2, []),
      (3, [\<lparr>TimeMin = 0, Vol = 4, Crate = 1\<rparr>, \<lparr>TimeMin = 5, Vol = 3, Crate = 1\<rparr>])] 1 3
   = Inr [\<lparr>TimeMin = 0, Vol = 4, Crate = 1\<rparr>, \<lparr>TimeMin = 10, Vol = 3, Crate = 1\<rparr>,
          \<lparr>TimeMin = 0, Vol = 4, Crate = 1\<rparr>, \<lparr>TimeMin = 5, Vol = 3, Crate = 1\<rparr>] \<and>
   \<not> sorted [0, 10, 0, 5 :: real]"
  by (simp add: get_cycle_range_def upto.simps has_cycle_def stored_def positive_def
        series_max_def shift_time_def)

section \<open>Properties of the linked analyzer\<close>

lemma linked_offset_mono:
  "cumulative_cycle_offset \<le> snd (linked_analyze_loop cfg containers tsv_rows all_rows cumulative_cycle_offset)"
proof (induction tsv_rows arbitrary: all_rows cumulative_cycle_offset)
  case Nil
  show ?case by simp
next
  case (Cons row tsv_rows)
  obtain cyclepath cyclename where row: "row = (cyclepath, cyclename)" by (cases row)
  show ?case
  proof (cases "map_of containers cyclepath")
    case None
    then show ?thesis using Cons.IH by (simp add: row)
  next
    case (Some container)
    define offset where "offset =
      (if get_loaded_cycle_numbers container \<noteq> []
       then max cumulative_cycle_offset
              (fold max (tl (get_loaded_cycle_numbers container)) (hd (get_loaded_cycle_numbers container)))
       else cumulative_cycle_offset)"
    have "cumulative_cycle_offset \<le> offset" by (simp add: offset_def)
    also have "offset \<le> snd (linked_analyze_loop cfg containers tsv_rows
        (all_rows @ path_summary cfg cyclepath cyclename container cumulative_cycle_offset) offset)"
      by (rule Cons.IH)
    finally show ?thesis
      by (simp add: row Some offset_def Let_def)
  qed
qed

text \<open>
  C4. The linked analyzer is documented to accumulate cycle numbers across the paths of
  the manifest. Three paths, each with the local cycles 1 and 2: the offset after each
  path is \<open>max offset 2 = 2\<close>, never the number of cycles seen so far, so the
  global numbers in manifest order are 1, 2, 3, 4, 3, 4, which decrease from the second
  path to the third. (The offset itself never decreases, by \<open>linked_offset_mono\<close>.)
\<close>

theorem C4_third_path_repeats_global_numbers:
  "map Global_Cycle
     (linked_analyze \<lparr>mode = AUTO_CRATE, c_rate = 1 / 5, manual_capacity = 58\<rparr>
        [(''p1'', [(1, [\<lparr>TimeMin = 0, Vol = 4, Crate = 1\<rparr>]), (2, [\<lparr>TimeMin = 0, Vol = 4, Crate = 1\<rparr>])]),
         (''p2'', [(1, [\<lparr>TimeMin = 0, Vol = 4, Crate = 1\<rparr>]), (2, [\<lparr>TimeMin = 0, Vol = 4, Crate = 1\<rparr>])]),
         (''p3'', [(1, [\<lparr>TimeMin = 0, Vol = 4, Crate = 1\<rparr>]), (2, [\<lparr>TimeMin = 0, Vol = 4, Crate = 1\<rparr>])])]
        [(''p1'', ''first''), (''p2'', ''second''), (''p3'', ''third'')])
   = [1, 2, 3, 4, 3, 4] \<and>
   \<not> sorted [1, 2, 3, 4, 3, 4 :: int]"
  by (simp add: linked_analyze_def path_summary_def get_loaded_cycle_numbers_def Let_def)

section \<open>Properties of the capacity derivation\<close>

lemma length_series_diff: "length (series_diff xs) = length xs"
  by (cases xs) simp_all

lemma series_diff_nth:
  "i < length xs \<Longrightarrow>
     series_diff xs ! i = (if i = 0 then None else Some (xs ! i - xs ! (i - 1)))"
  by (cases xs; cases i) simp_all

lemma length_time_diff: "length (time_diff df) = length df"
  by (simp add: time_diff_def fillna_def length_series_diff)

lemma time_diff_nth:
  "i < length df \<Longrightarrow> time_diff df ! i = (if i = 0 then 0 else time_step df i)"
  by (simp add: time_diff_def fillna_def length_series_diff series_diff_nth time_step_def)

lemma zip_time_diff:
  "zip df (time_diff df) = map (\<lambda>i. (df ! i, time_diff df ! i)) [0..<length df]"
  by (rule nth_equalityI) (simp_all add: length_time_diff)

lemma sum_rows_by_index:
  "(\<Sum>(r, d) \<leftarrow> filter (\<lambda>(r, d). P r) (zip df (time_diff df)). g r d) =
     (\<Sum>i \<leftarrow> filter (\<lambda>i. P (df ! i)) [0..<length df]. g (df ! i) (time_diff df ! i))"
  by (simp add: zip_time_diff filter_map comp_def)

lemma sum_rows_from_one:
  assumes "\<And>r. g r 0 = 0"
  shows "(\<Sum>i \<leftarrow> filter (\<lambda>i. P (df ! i)) [0..<length df]. g (df ! i) (time_diff df ! i)) =
         (\<Sum>i \<leftarrow> filter (\<lambda>i. P (df ! i)) [1..<length df]. g (df ! i) (time_step df i))"
proof (cases df)
  case Nil
  then show ?thesis by simp
next
  case (Cons r rs)
  have up: "[0..<length df] = 0 # [1..<length df]"
    using Cons by (subst upt_rec) simp
  have t0: "time_diff df ! 0 = 0"
    using Cons by (simp add: time_diff_nth)
  have "map (\<lambda>i. g (df ! i) (time_diff df ! i)) (filter (\<lambda>i. P (df ! i)) [1..<length df]) =
        map (\<lambda>i. g (df ! i) (time_step df i)) (filter (\<lambda>i. P (df ! i)) [1..<length df])"
    by (rule map_cong) (auto simp: time_diff_nth)
  then have rest: "(\<Sum>i \<leftarrow> filter (\<lambda>i. P (df ! i)) [1..<length df]. g (df ! i) (time_diff df ! i)) =
                   (\<Sum>i \<leftarrow> filter (\<lambda>i. P (df ! i)) [1..<length df]. g (df ! i) (time_step df i))"
    by (rule arg_cong)
  have "(\<Sum>i \<leftarrow> filter (\<lambda>i. P (df ! i)) (0 # [1..<length df]). g (df ! i) (time_diff df ! i)) =
        (\<Sum>i \<leftarrow> filter (\<lambda>i. P (df ! i)) [1..<length df]. g (df ! i) (time_diff df ! i))"
    using t0 assms by simp
  then show ?thesis
    unfolding up rest .
qed

lemma sum_rows_indexed:
  assumes "\<And>r. g r 0 = 0"
  shows "(\<Sum>(r, d) \<leftarrow> filter (\<lambda>(r, d). P r) (zip df (time_diff df)). g r d) =
         (\<Sum>i \<leftarrow> filter (\<lambda>i. P (df ! i)) [1..<length df]. g (df ! i) (time_step df i))"
  using sum_rows_by_index [where P = P and df = df and g = g]
        sum_rows_from_one [where P = P and df = df and g = g, OF assms] by simp

lemma time_step_nonneg:
  "sorted (map TimeMin df) \<Longrightarrow> 0 < i \<Longrightarrow> i < length df \<Longrightarrow> 0 \<le> time_step df i"
  using sorted_nth_mono [of "map TimeMin df" "i - 1" i] by (simp add: time_step_def)

lemma get_capacity_is_discharge_capacity:
  "has_cycle cs n \<Longrightarrow>
     get_capacity cfg cs n = Inr (discharge_capacity (calculate_cycle_capacity cfg (stored cs n)))"
  by (simp add: get_capacity_def get_cycle_def calculate_cycle_capacity_def Let_def)

text \<open>
  C1 as stated, with the time steps taken inside each subset, fails. A table sorted by
  time with two charge rows followed by three discharge rows: the first discharge row
  lies one minute after the last charge row. The code counts that minute (58 mAh at the
  default basis), the stated formula does not.
\<close>

theorem C1_subset_time_steps_counterexample:
  "discharge_capacity
     (calculate_cycle_capacity \<lparr>mode = AUTO_CRATE, c_rate = 1 / 5, manual_capacity = 58\<rparr>
        [\<lparr>TimeMin = 0, Vol = 3, Crate = 1 / 2\<rparr>,
         \<lparr>TimeMin = 60, Vol = 4, Crate = 1 / 2\<rparr>,
         \<lparr>TimeMin = 61, Vol = 4, Crate = - 1\<rparr>,
         \<lparr>TimeMin = 91, Vol = 7 / 2, Crate = - 1\<rparr>,
         \<lparr>TimeMin = 121, Vol = 3, Crate = - 1 / 2\<rparr>]) = 2668 \<and>
   spec_subset_capacity \<lparr>mode = AUTO_CRATE, c_rate = 1 / 5, manual_capacity = 58\<rparr>
     (discharge_rows
        [\<lparr>TimeMin = 0, Vol = 3, Crate = 1 / 2\<rparr>,
         \<lparr>TimeMin = 60, Vol = 4, Crate = 1 / 2\<rparr>,
         \<lparr>TimeMin = 61, Vol = 4, Crate = - 1\<rparr>,
         \<lparr>TimeMin = 91, Vol = 7 / 2, Crate = - 1\<rparr>,
         \<lparr>TimeMin = 121, Vol = 3, Crate = - 1 / 2\<rparr>]) = 2610"
  by (simp add: calculate_cycle_capacity_def time_diff_def fillna_def capacity_base_of_def
        spec_subset_capacity_def discharge_rows_def)

text \<open>
  C1, amended. The time step of a row is its elapsed time minus that of the preceding row
  of the whole table (the table's first row contributes nothing), and the split into
  discharge rows (\<open>Crate < 0\<close>) and charge rows (\<open>Crate > 0\<close>) comes after.
  The discharge capacity is the sum over the discharge rows of \<open>|Crate * step|\<close>,
  the charge capacity the sum over the charge rows of \<open>|Crate| * step\<close>, each times
  the capacity basis: the manual capacity in manual mode, otherwise 58. On a table sorted
  by time the discharge capacity is the sum of \<open>|Crate| * step\<close> as well. The
  efficiency is discharge over charge capacity times 100 when the charge capacity is
  positive, and 0 otherwise.
\<close>

theorem C1_capacity_uses_whole_table_time_steps:
  "discharge_capacity (calculate_cycle_capacity cfg df) =
     (\<Sum>i \<leftarrow> filter (\<lambda>i. Crate (df ! i) < 0) [1..<length df].
        \<bar>Crate (df ! i)\<bar> * \<bar>time_step df i\<bar>) * capacity_base_of cfg \<and>
   charge_capacity (calculate_cycle_capacity cfg df) =
     (\<Sum>i \<leftarrow> filter (\<lambda>i. Crate (df ! i) > 0) [1..<length df].
        \<bar>Crate (df ! i)\<bar> * time_step df i) * capacity_base_of cfg \<and>
   capacity_base_of cfg = (if mode cfg = MANUAL then manual_capacity cfg else 58) \<and>
   efficiency (calculate_cycle_capacity cfg df) =
     (if charge_capacity (calculate_cycle_capacity cfg df) > 0
      then discharge_capacity (calculate_cycle_capacity cfg df) /
           charge_capacity (calculate_cycle_capacity cfg df) * 100
      else 0) \<and>
   (sorted (map TimeMin df) \<longrightarrow>
      discharge_capacity (calculate_cycle_capacity cfg df) =
        (\<Sum>i \<leftarrow> filter (\<lambda>i. Crate (df ! i) < 0) [1..<length df].
           \<bar>Crate (df ! i)\<bar> * time_step df i) * capacity_base_of cfg)"
proof -
  have d: "(\<Sum>(r, d) \<leftarrow> filter (\<lambda>(r, d). Crate r < 0) (zip df (time_diff df)). \<bar>Crate r * d\<bar>) =
           (\<Sum>i \<leftarrow> filter (\<lambda>i. Crate (df ! i) < 0) [1..<length df].
              \<bar>Crate (df ! i)\<bar> * \<bar>time_step df i\<bar>)"
    using sum_rows_indexed [where g = "\<lambda>r d. \<bar>Crate r * d\<bar>" and P = "\<lambda>r. Crate r < 0" and df = df]
    by (simp add: abs_mult)
  have c: "(\<Sum>(r, d) \<leftarrow> filter (\<lambda>(r, d). Crate r > 0) (zip df (time_diff df)). Crate r * d) =
           (\<Sum>i \<leftarrow> filter (\<lambda>i. Crate (df ! i) > 0) [1..<length df].
              \<bar>Crate (df ! i)\<bar> * time_step df i)"
  proof -
    have "(\<Sum>(r, d) \<leftarrow> filter (\<lambda>(r, d). Crate r > 0) (zip df (time_diff df)). Crate r * d) =
          (\<Sum>i \<leftarrow> filter (\<lambda>i. Crate (df ! i) > 0) [1..<length df]. Crate (df ! i) * time_step df i)"
      using sum_rows_indexed [where g = "\<lambda>r d. Crate r * d" and P = "\<lambda>r. Crate r > 0" and df = df] by simp
    also have "map (\<lambda>i. Crate (df ! i) * time_step df i) (filter (\<lambda>i. Crate (df ! i) > 0) [1..<length df]) =
               map (\<lambda>i. \<bar>Crate (df ! i)\<bar> * time_step df i) (filter (\<lambda>i. Crate (df ! i) > 0) [1..<length df])"
      by (rule map_cong) auto
    finally show ?thesis .
  qed
  have s: "(\<Sum>i \<leftarrow> filter (\<lambda>i. Crate (df ! i) < 0) [1..<length df].
              \<bar>Crate (df ! i)\<bar> * \<bar>time_step df i\<bar>) =
           (\<Sum>i \<leftarrow> filter (\<lambda>i. Crate (df ! i) < 0) [1..<length df].
              \<bar>Crate (df ! i)\<bar> * time_step df i)"
    if "sorted (map TimeMin df)"
  proof -
    have "map (\<lambda>i. \<bar>Crate (df ! i)\<bar> * \<bar>time_step df i\<bar>) (filter (\<lambda>i. Crate (df ! i) < 0) [1..<length df]) =
          map (\<lambda>i. \<bar>Crate (df ! i)\<bar> * time_step df i) (filter (\<lambda>i. Crate (df ! i) < 0) [1..<length df])"
      using that by (intro map_cong) (auto simp: time_step_nonneg)
    then show ?thesis by (rule arg_cong)
  qed
  have dc: "discharge_capacity (calculate_cycle_capacity cfg df) =
     (\<Sum>i \<leftarrow> filter (\<lambda>i. Crate (df ! i) < 0) [1..<length df].
        \<bar>Crate (df ! i)\<bar> * \<bar>time_step df i\<bar>) * capacity_base_of cfg"
    by (simp add: calculate_cycle_capacity_def Let_def d)
  have cc: "charge_capacity (calculate_cycle_capacity cfg df) =
     (\<Sum>i \<leftarrow> filter (\<lambda>i. Crate (df ! i) > 0) [1..<length df].
        \<bar>Crate (df ! i)\<bar> * time_step df i) * capacity_base_of cfg"
    by (simp add: calculate_cycle_capacity_def Let_def c)
  have eff: "efficiency (calculate_cycle_capacity cfg df) =
     (if charge_capacity (calculate_cycle_capacity cfg df) > 0
      then discharge_capacity (calculate_cycle_capacity cfg df) /
           charge_capacity (calculate_cycle_capacity cfg df) * 100
      else 0)"
    by (simp add: calculate_cycle_capacity_def Let_def)
  have base: "capacity_base_of cfg = (if mode cfg = MANUAL then manual_capacity cfg else 58)"
    by (simp add: capacity_base_of_def)
  have ds: "sorted (map TimeMin df) \<longrightarrow>
      discharge_capacity (calculate_cycle_capacity cfg df) =
        (\<Sum>i \<leftarrow> filter (\<lambda>i. Crate (df ! i) < 0) [1..<length df].
           \<bar>Crate (df ! i)\<bar> * time_step df i) * capacity_base_of cfg"
    using dc s by presburger
  from dc cc base eff ds show ?thesis by blast
qed

theorem C1_capacity_uses_whole_table_time_steps_witness:
  "sorted (map TimeMin
        [\<lparr>TimeMin = 0, Vol = 3, Crate = 1 / 2\<rparr>,
         \<lparr>TimeMin = 60, Vol = 4, Crate = 1 / 2\<rparr>,
         \<lparr>TimeMin = 61, Vol = 4, Crate = - 1\<rparr>,
         \<lparr>TimeMin = 91, Vol = 7 / 2, Crate = - 1\<rparr>,
         \<lparr>TimeMin = 121, Vol = 3, Crate = - 1 / 2\<rparr>]) \<and>
   discharge_capacity
     (calculate_cycle_capacity \<lparr>mode = MANUAL, c_rate = 1 / 5, manual_capacity = 100\<rparr>
        [\<lparr>TimeMin = 0, Vol = 3, Crate = 1 / 2\<rparr>,
         \<lparr>TimeMin = 60, Vol = 4, Crate = 1 / 2\<rparr>,
         \<lparr>TimeMin = 61, Vol = 4, Crate = - 1\<rparr>,
         \<lparr>TimeMin = 91, Vol = 7 / 2, Crate = - 1\<rparr>,
         \<lparr>TimeMin = 121, Vol = 3, Crate = - 1 / 2\<rparr>]) = (1 * 1 + 1 * 30 + 1 / 2 * 30) * 100"
  using C1_capacity_uses_whole_table_time_steps [of "\<lparr>mode = MANUAL, c_rate = 1 / 5, manual_capacity = 100\<rparr>"
        "[\<lparr>TimeMin = 0, Vol = 3, Crate = 1 / 2\<rparr>,
         \<lparr>TimeMin = 60, Vol = 4, Crate = 1 / 2\<rparr>,
         \<lparr>TimeMin = 61, Vol = 4, Crate = - 1\<rparr>,
         \<lparr>TimeMin = 91, Vol = 7 / 2, Crate = - 1\<rparr>,
         \<lparr>TimeMin = 121, Vol = 3, Crate = - 1 / 2\<rparr>]"]
  by (simp add: time_step_def capacity_base_of_def upt_rec)

section \<open>Properties of the normalized capacity curve\<close>

lemma time_diff_nonneg:
  assumes "sorted (map TimeMin df)" and "d \<in> set (time_diff df)"
  shows "0 \<le> d"
proof -
  obtain i where i: "i < length df" "d = time_diff df ! i"
    using assms(2) by (auto simp: in_set_conv_nth length_time_diff)
  show ?thesis
    using i assms(1) time_step_nonneg [of df i] by (simp add: time_diff_nth)
qed

lemma length_cumsum_from: "length (cumsum_from acc xs) = length xs"
  by (induction xs arbitrary: acc) simp_all

lemma cumsum_from_lower:
  "\<forall>x \<in> set xs. 0 \<le> x \<Longrightarrow> c \<in> set (cumsum_from acc xs) \<Longrightarrow> acc \<le> c"
proof (induction xs arbitrary: acc)
  case Nil
  then show ?case by simp
next
  case (Cons x xs)
  then show ?case by fastforce
qed

lemma sorted_cumsum_from:
  "\<forall>x \<in> set xs. 0 \<le> x \<Longrightarrow> sorted (cumsum_from acc xs)"
proof (induction xs arbitrary: acc)
  case Nil
  show ?case by simp
next
  case (Cons x xs)
  then show ?case using cumsum_from_lower [of xs _ "acc + x"] by auto
qed

lemma fold_max_sorted:
  assumes "sorted xs" and "xs \<noteq> []"
  shows "fold max (tl xs) (hd xs) = last xs"
proof -
  have "fold max (tl xs) (hd xs) = Max (set xs)"
    using assms(2) Max.set_eq_fold [of "hd xs" "tl xs"] by simp
  also have "Max (set xs) = last xs"
  proof (rule Max_eqI)
    show "finite (set xs)" by simp
    show "last xs \<in> set xs" using assms(2) by simp
    fix y assume "y \<in> set xs"
    then obtain i where i: "i < length xs" "y = xs ! i" by (auto simp: in_set_conv_nth)
    have "xs ! i \<le> xs ! (length xs - 1)"
      using assms(1) i(1) by (intro sorted_nth_mono) auto
    then show "y \<le> last xs"
      using assms(2) i(2) by (simp add: last_conv_nth)
  qed
  finally show ?thesis .
qed

lemma increments_nonneg:
  assumes "sorted (map TimeMin df)"
  shows "\<forall>x \<in> set (map2 (\<lambda>r d. \<bar>Crate r\<bar> * d) df (time_diff df)). 0 \<le> x"
  using time_diff_nonneg [OF assms] by (auto dest!: set_zip_rightD)

lemma capacity_cumulative_props:
  assumes "sorted (map TimeMin df)"
  shows "sorted (capacity_cumulative df)"
    and "length (capacity_cumulative df) = length df"
    and "df \<noteq> [] \<Longrightarrow> hd (capacity_cumulative df) = 0"
proof -
  show "sorted (capacity_cumulative df)"
    unfolding capacity_cumulative_def cumsum_def
    by (rule sorted_cumsum_from) (rule increments_nonneg [OF assms])
  show "length (capacity_cumulative df) = length df"
    by (simp add: capacity_cumulative_def cumsum_def length_cumsum_from length_time_diff)
  show "hd (capacity_cumulative df) = 0" if "df \<noteq> []"
  proof -
    from that obtain r rs where df: "df = r # rs" by (cases df) auto
    obtain ds where td: "time_diff df = 0 # ds"
      using length_time_diff [of df] time_diff_nth [of 0 df] df
      by (cases "time_diff df") auto
    show ?thesis
      unfolding capacity_cumulative_def cumsum_def td by (simp add: df)
  qed
qed

lemma normalize_capacity_sorted_table:
  assumes "sorted (map TimeMin sub)"
  shows "sorted (normalize_capacity sub) \<and>
         length (normalize_capacity sub) = length sub \<and>
         (sub \<noteq> [] \<longrightarrow> hd (normalize_capacity sub) = 0) \<and>
         (sub \<noteq> [] \<and> 0 < last (capacity_cumulative sub) \<longrightarrow> last (normalize_capacity sub) = 100)"
proof (cases "sub = []")
  case True
  then show ?thesis by (simp add: normalize_capacity_def)
next
  case False
  define cum where "cum = capacity_cumulative sub"
  have so: "sorted cum" and len: "length cum = length sub" and h0: "hd cum = 0"
    using capacity_cumulative_props [OF assms] False by (simp_all add: cum_def)
  have ne: "cum \<noteq> []" using len False by auto
  have mx: "fold max (tl cum) (hd cum) = last cum"
    by (rule fold_max_sorted [OF so ne])
  show ?thesis
  proof (cases "0 < last cum")
    case True
    have n: "normalize_capacity sub = map (\<lambda>c. c / last cum * 100) cum"
      using False True mx by (simp add: normalize_capacity_def Let_def cum_def)
    have "sorted (map (\<lambda>c. c / last cum * 100) cum)"
      using so True by (simp add: sorted_map sorted_wrt_iff_nth_less divide_right_mono)
    moreover have "hd (map (\<lambda>c. c / last cum * 100) cum) = 0"
      using ne h0 by (simp add: hd_map)
    moreover have "last (map (\<lambda>c. c / last cum * 100) cum) = 100"
      using ne True by (simp add: last_map)
    ultimately show ?thesis
      using n len by simp
  next
    case F: False
    have n: "normalize_capacity sub = replicate (length sub) 0"
      using False F mx by (simp add: normalize_capacity_def Let_def cum_def)
    show ?thesis
      using False F by (simp add: n cum_def sorted_replicate)
  qed
qed

text \<open>
  C7. For the discharge or the charge subset of a table sorted by elapsed time, the
  normalized capacity curve has one value per row of the subset, is non-decreasing,
  starts at a value that is not negative, and ends at 100 whenever the subset has a row
  and its cumulative \<open>|current| * \<Delta>time\<close> is positive; the curve of an empty
  subset is empty.
\<close>

theorem C7_normalized_curve:
  "sorted (map TimeMin df) \<and> (sub = discharge_rows df \<or> sub = charge_rows df) \<longrightarrow>
     sorted (normalize_capacity sub) \<and>
     length (normalize_capacity sub) = length sub \<and>
     (sub \<noteq> [] \<longrightarrow> 0 \<le> hd (normalize_capacity sub)) \<and>
     (sub \<noteq> [] \<and> 0 < last (capacity_cumulative sub) \<longrightarrow> last (normalize_capacity sub) = 100) \<and>
     (sub = [] \<longrightarrow> normalize_capacity sub = [])"
proof (intro impI)
  assume a: "sorted (map TimeMin df) \<and> (sub = discharge_rows df \<or> sub = charge_rows df)"
  then have "sorted (map TimeMin sub)"
    by (auto simp: discharge_rows_def charge_rows_def sorted_filter)
  from normalize_capacity_sorted_table [OF this]
  show "sorted (normalize_capacity sub) \<and>
     length (normalize_capacity sub) = length sub \<and>
     (sub \<noteq> [] \<longrightarrow> 0 \<le> hd (normalize_capacity sub)) \<and>
     (sub \<noteq> [] \<and> 0 < last (capacity_cumulative sub) \<longrightarrow> last (normalize_capacity sub) = 100) \<and>
     (sub = [] \<longrightarrow> normalize_capacity sub = [])"
    by (auto simp: normalize_capacity_def)
qed

theorem C7_normalized_curve_witness:
  "sorted (map TimeMin
        [\<lparr>TimeMin = 0, Vol = 3, Crate = 1 / 2\<rparr>,
         \<lparr>TimeMin = 60, Vol = 4, Crate = 1 / 2\<rparr>,
         \<lparr>TimeMin = 61, Vol = 4, Crate = - 1\<rparr>,
         \<lparr>TimeMin = 91, Vol = 7 / 2, Crate = - 1\<rparr>,
         \<lparr>TimeMin = 121, Vol = 3, Crate = - 1 / 2\<rparr>]) \<and>
   discharge_rows
        [\<lparr>TimeMin = 0, Vol = 3, Crate = 1 / 2\<rparr>,
         \<lparr>TimeMin = 60, Vol = 4, Crate = 1 / 2\<rparr>,
         \<lparr>TimeMin = 61, Vol = 4, Crate = - 1\<rparr>,
         \<lparr>TimeMin = 91, Vol = 7 / 2, Crate = - 1\<rparr>,
         \<lparr>TimeMin = 121, Vol = 3, Crate = - 1 / 2\<rparr>] =
        [\<lparr>TimeMin = 61, Vol = 4, Crate = - 1\<rparr>,
         \<lparr>TimeMin = 91, Vol = 7 / 2, Crate = - 1\<rparr>,
         \<lparr>TimeMin = 121, Vol = 3, Crate = - 1 / 2\<rparr>] \<and>
   capacity_cumulative
        [\<lparr>TimeMin = 61, Vol = 4, Crate = - 1\<rparr>,
         \<lparr>TimeMin = 91, Vol = 7 / 2, Crate = - 1\<rparr>,
         \<lparr>TimeMin = 121, Vol = 3, Crate = - 1 / 2\<rparr>] = [0, 30, 45] \<and>
   sorted (normalize_capacity
        [\<lparr>TimeMin = 61, Vol = 4, Crate = - 1\<rparr>,
         \<lparr>TimeMin = 91, Vol = 7 / 2, Crate = - 1\<rparr>,
         \<lparr>TimeMin = 121, Vol = 3, Crate = - 1 / 2\<rparr>]) \<and>
   last (normalize_capacity
        [\<lparr>TimeMin = 61, Vol = 4, Crate = - 1\<rparr>,
         \<lparr>TimeMin = 91, Vol = 7 / 2, Crate = - 1\<rparr>,
         \<lparr>TimeMin = 121, Vol = 3, Crate = - 1 / 2\<rparr>]) = 100"
proof -
  have d: "discharge_rows
        [\<lparr>TimeMin = 0, Vol = 3, Crate = 1 / 2\<rparr>,
         \<lparr>TimeMin = 60, Vol = 4, Crate = 1 / 2\<rparr>,
         \<lparr>TimeMin = 61, Vol = 4, Crate = - 1\<rparr>,
         \<lparr>TimeMin = 91, Vol = 7 / 2, Crate = - 1\<rparr>,
         \<lparr>TimeMin = 121, Vol = 3, Crate = - 1 / 2\<rparr>] =
        [\<lparr>TimeMin = 61, Vol = 4, Crate = - 1\<rparr>,
         \<lparr>TimeMin = 91, Vol = 7 / 2, Crate = - 1\<rparr>,
         \<lparr>TimeMin = 121, Vol = 3, Crate = - 1 / 2\<rparr>]"
    by (simp add: discharge_rows_def)
  have c: "capacity_cumulative
        [\<lparr>TimeMin = 61, Vol = 4, Crate = - 1\<rparr>,
         \<lparr>TimeMin = 91, Vol = 7 / 2, Crate = - 1\<rparr>,
         \<lparr>TimeMin = 121, Vol = 3, Crate = - 1 / 2\<rparr>] = [0, 30, 45]"
    by (simp add: capacity_cumulative_def cumsum_def time_diff_def fillna_def)
  show ?thesis
    using C7_normalized_curve [of "[\<lparr>TimeMin = 0, Vol = 3, Crate = 1 / 2\<rparr>,
         \<lparr>TimeMin = 60, Vol = 4, Crate = 1 / 2\<rparr>,
         \<lparr>TimeMin = 61, Vol = 4, Crate = - 1\<rparr>,
         \<lparr>TimeMin = 91, Vol = 7 / 2, Crate = - 1\<rparr>,
         \<lparr>TimeMin = 121, Vol = 3, Crate = - 1 / 2\<rparr>]"
        "[\<lparr>TimeMin = 61, Vol = 4, Crate = - 1\<rparr>,
         \<lparr>TimeMin = 91, Vol = 7 / 2, Crate = - 1\<rparr>,
         \<lparr>TimeMin = 121, Vol = 3, Crate = - 1 / 2\<rparr>]"] d c
    by simp
qed

section \<open>Properties of the pulse resistance\<close>

lemma length_current_diff: "length (current_diff df) = length df"
  by (simp add: current_diff_def length_series_diff)

lemma current_diff_nth:
  "i < length df \<Longrightarrow>
     current_diff df ! i = (if i = 0 then None else Some (row_change df i))"
  by (simp add: current_diff_def length_series_diff series_diff_nth row_change_def)

lemma filter_upt_first:
  "filter P [a..<b] = y # ys \<Longrightarrow>
     a \<le> y \<and> y < b \<and> P y \<and> (\<forall>i. a \<le> i \<and> i < y \<longrightarrow> \<not> P i)"
proof (induction "b - a" arbitrary: a)
  case 0
  then show ?case by simp
next
  case (Suc k)
  then have ab: "a < b" by simp
  then have up: "[a..<b] = a # [Suc a..<b]" by (simp add: upt_rec)
  show ?case
  proof (cases "P a")
    case True
    with Suc.prems up ab show ?thesis by auto
  next
    case False
    with Suc.prems up have f: "filter P [Suc a..<b] = y # ys" by simp
    have "k = b - Suc a" using Suc.hyps(2) by simp
    from Suc.hyps(1) [OF this f] False show ?thesis
      by (metis Suc_leD Suc_leI le_neq_implies_less)
  qed
qed

lemma pulse_points_by_change:
  "pulse_points df =
     filter (\<lambda>i. exceeds (Some (row_change df i)) (quantile (95 / 100) (current_diff df)))
       [1..<length df]"
proof (cases df)
  case Nil
  then show ?thesis by (simp add: pulse_points_def)
next
  case (Cons r rs)
  have up: "[0..<length df] = 0 # [1..<length df]"
    using Cons by (subst upt_rec) simp
  have z: "\<not> exceeds (current_diff df ! 0) t" for t
    using Cons current_diff_nth [of 0 df] by (simp add: exceeds_def)
  have "filter (\<lambda>i. exceeds (current_diff df ! i) (quantile (95 / 100) (current_diff df))) [1..<length df] =
        filter (\<lambda>i. exceeds (Some (row_change df i)) (quantile (95 / 100) (current_diff df))) [1..<length df]"
    by (rule filter_cong) (auto simp: current_diff_nth)
  then show ?thesis
    unfolding pulse_points_def Let_def up using z by simp
qed

lemma pulse_points_bounds: "i \<in> set (pulse_points df) \<Longrightarrow> 0 < i \<and> i < length df"
  by (simp add: pulse_points_by_change)

lemma loc_default_index:
  assumes "k < length df"
  shows "loc (default_index df) df (int k) = Inr (df ! k)"
proof -
  have "map_of (zip (map int [0..<length df]) df) (map int [0..<length df] ! k) = Some (df ! k)"
    by (rule map_of_zip_nth) (simp_all add: assms distinct_map)
  then show ?thesis using assms by (simp add: loc_def default_index_def)
qed

text \<open>
  On a table with the default index the labels are the positions, and
  \<open>calculate_ir\<close> returns the resistance of the specification.
\<close>

lemma calculate_ir_default_index:
  "calculate_ir (default_index df) df = Inr (spec_calculate_ir df)"
proof (cases "length (pulse_points df) < 2")
  case True
  then show ?thesis by (simp add: calculate_ir_def spec_calculate_ir_def)
next
  case False
  then obtain s rest where pts: "pulse_points df = s # rest"
    by (cases "pulse_points df") auto
  then have s: "0 < s" "s < length df"
    using pulse_points_bounds [of s df] by simp_all
  define e where "e = min (s + 10) (length df - 1)"
  have e: "e < length df" using s by (simp add: e_def)
  have start: "default_index df ! s = int s"
    using s by (simp add: default_index_def)
  have end_label: "min (int s + 10) (int (length df) - 1) = int e"
    unfolding e_def min_def using s by auto
  have ir: "calculate_ir (default_index df) df =
      (if \<bar>Crate (df ! e) - Crate (df ! s)\<bar> < 1 / 100 then Inr 0
       else Inr (\<bar>(Vol (df ! e) - Vol (df ! s)) / (Crate (df ! e) - Crate (df ! s))\<bar> * 1000))"
    using False
    by (simp add: calculate_ir_def Let_def pts start end_label
          loc_default_index [OF e] loc_default_index [OF s(2)])
  have sp: "spec_calculate_ir df =
      (if \<bar>Crate (df ! e) - Crate (df ! s)\<bar> < 1 / 100 then 0
       else \<bar>Vol (df ! e) - Vol (df ! s)\<bar> / \<bar>Crate (df ! e) - Crate (df ! s)\<bar> * 1000)"
    using False by (simp add: spec_calculate_ir_def Let_def pts e_def)
  show ?thesis by (simp add: ir sp abs_divide)
qed

text \<open>
  The resistance of the specification, row by row. The column \<open>CurrentDiff\<close> holds,
  for every row but the first, the absolute change of the signed current from the row
  before. The threshold is its 95th percentile; the pulse candidates are the rows whose
  change strictly exceeds it. With fewer than two candidates the resistance is 0.
  Otherwise the pulse start is the first candidate, the pulse end lies 10 rows later or
  at the last row when fewer rows remain, and the resistance is 0 when the current
  differs by less than 0.01 between the two rows and
  \<open>|\<Delta>Vol| / |\<Delta>Crate| * 1000\<close> otherwise. By \<open>calculate_ir_default_index\<close>
  this is what the code returns on a table with the default index.
\<close>

lemma pulse_resistance_by_position:
  "current_diff df = map (\<lambda>i. if i = 0 then None else Some (row_change df i)) [0..<length df] \<and>
   pulse_points df =
     filter (\<lambda>i. exceeds (Some (row_change df i)) (quantile (95 / 100) (current_diff df)))
       [1..<length df] \<and>
   (length (pulse_points df) < 2 \<longrightarrow> spec_calculate_ir df = 0) \<and>
   (2 \<le> length (pulse_points df) \<longrightarrow>
      (let pulse_start = hd (pulse_points df);
           pulse_end = min (pulse_start + 10) (length df - 1);
           v_diff = Vol (df ! pulse_end) - Vol (df ! pulse_start);
           i_diff = Crate (df ! pulse_end) - Crate (df ! pulse_start)
       in 0 < pulse_start \<and> pulse_start \<le> pulse_end \<and> pulse_end < length df \<and>
          exceeds (Some (row_change df pulse_start)) (quantile (95 / 100) (current_diff df)) \<and>
          (\<forall>i. 0 < i \<and> i < pulse_start \<longrightarrow>
             \<not> exceeds (Some (row_change df i)) (quantile (95 / 100) (current_diff df))) \<and>
          (\<bar>i_diff\<bar> < 1 / 100 \<longrightarrow> spec_calculate_ir df = 0) \<and>
          (\<not> \<bar>i_diff\<bar> < 1 / 100 \<longrightarrow> spec_calculate_ir df = \<bar>v_diff\<bar> / \<bar>i_diff\<bar> * 1000)))"
proof (intro conjI impI)
  show "current_diff df = map (\<lambda>i. if i = 0 then None else Some (row_change df i)) [0..<length df]"
    by (rule nth_equalityI) (simp_all add: length_current_diff current_diff_nth)
  show "pulse_points df =
     filter (\<lambda>i. exceeds (Some (row_change df i)) (quantile (95 / 100) (current_diff df)))
       [1..<length df]"
    by (rule pulse_points_by_change)
  show "spec_calculate_ir df = 0" if "length (pulse_points df) < 2"
    using that by (simp add: spec_calculate_ir_def)
  show "let pulse_start = hd (pulse_points df);
           pulse_end = min (pulse_start + 10) (length df - 1);
           v_diff = Vol (df ! pulse_end) - Vol (df ! pulse_start);
           i_diff = Crate (df ! pulse_end) - Crate (df ! pulse_start)
       in 0 < pulse_start \<and> pulse_start \<le> pulse_end \<and> pulse_end < length df \<and>
          exceeds (Some (row_change df pulse_start)) (quantile (95 / 100) (current_diff df)) \<and>
          (\<forall>i. 0 < i \<and> i < pulse_start \<longrightarrow>
             \<not> exceeds (Some (row_change df i)) (quantile (95 / 100) (current_diff df))) \<and>
          (\<bar>i_diff\<bar> < 1 / 100 \<longrightarrow> spec_calculate_ir df = 0) \<and>
          (\<not> \<bar>i_diff\<bar> < 1 / 100 \<longrightarrow> spec_calculate_ir df = \<bar>v_diff\<bar> / \<bar>i_diff\<bar> * 1000)"
    if two: "2 \<le> length (pulse_points df)"
  proof -
    obtain s rest where pts: "pulse_points df = s # rest"
      using two by (cases "pulse_points df") auto
    have f: "filter (\<lambda>i. exceeds (Some (row_change df i)) (quantile (95 / 100) (current_diff df)))
               [1..<length df] = s # rest"
      using pts pulse_points_by_change [of df] by simp
    from filter_upt_first [OF f]
    have s: "1 \<le> s" "s < length df"
      "exceeds (Some (row_change df s)) (quantile (95 / 100) (current_diff df))"
      "\<forall>i. 1 \<le> i \<and> i < s \<longrightarrow>
         \<not> exceeds (Some (row_change df i)) (quantile (95 / 100) (current_diff df))"
      by auto
    have hs: "hd (pulse_points df) = s" by (simp add: pts)
    have nl: "\<not> length (pulse_points df) < 2" using two by simp
    have ir: "spec_calculate_ir df =
       (if \<bar>Crate (df ! min (s + 10) (length df - 1)) - Crate (df ! s)\<bar> < 1 / 100 then 0
        else \<bar>Vol (df ! min (s + 10) (length df - 1)) - Vol (df ! s)\<bar> /
             \<bar>Crate (df ! min (s + 10) (length df - 1)) - Crate (df ! s)\<bar> * 1000)"
      unfolding spec_calculate_ir_def Let_def hs using nl by (simp only: if_False)
    have e: "s \<le> min (s + 10) (length df - 1)" "min (s + 10) (length df - 1) < length df"
      using s(1,2) by auto
    show ?thesis
      unfolding Let_def hs using s e ir by simp
  qed
qed

text \<open>
  The index and the rows of the table the loader makes of \<open>pulse_frame\<close>. The rows of
  the frame are in time order, so sorting leaves them in place.
\<close>

lemma pulse_frame_sorted:
  "sort_key cell_time (body (pulse_frame pulse gap)) = body (pulse_frame pulse gap)"
proof -
  have "map cell_time (body (pulse_frame pulse gap)) = map real [0..<24]"
    by (simp add: pulse_frame_def comp_def)
  moreover have "sorted (map real [0..<24])"
    by (simp add: sorted_map monotone_on_def)
  ultimately show ?thesis
    by (simp add: sort_key_id_if_sorted)
qed

lemma length_dropna:
  "length (dropna rows) =
     length (filter (\<lambda>r. cell_voltage r \<noteq> None \<and> cell_current r \<noteq> None) rows)"
  by (induction rows) (auto simp: dropna_def split: option.splits)

lemma length_filter_positions:
  "length (filter (\<lambda>i. P (xs ! i)) [0..<length xs]) = length (filter P xs)"
proof -
  have "filter P (map (nth xs) [0..<length xs]) =
        map (nth xs) (filter (P \<circ> nth xs) [0..<length xs])"
    by (rule filter_map)
  then have "length (filter P xs) = length (filter (P \<circ> nth xs) [0..<length xs])"
    by (simp add: map_nth)
  then show ?thesis by (simp add: comp_def)
qed

lemma length_preprocess_index:
  "length (preprocess_index df) = length (preprocess_data df)"
  by (simp only: preprocess_index_def preprocess_data_def length_dropna Let_def length_map
        length_filter_positions
          [of "\<lambda>r. cell_voltage r \<noteq> None \<and> cell_current r \<noteq> None"])

lemma pulse_frame_rows:
  "preprocess_data (pulse_frame pulse gap) =
     map (\<lambda>i. \<lparr>TimeMin = real i, Vol = (if i = pulse then 39 / 10 else 4),
                 Crate = (if i = pulse then - 1 else 0)\<rparr>)
       (filter (\<lambda>i. i \<noteq> gap) [0..<24])"
proof -
  have "dropna (map f xs) = map g (filter (\<lambda>i. i \<noteq> gap) xs)"
    if "f = (\<lambda>i. \<lparr>cell_time = real i,
                    cell_voltage = (if i = gap then None else Some (if i = pulse then 39 / 10 else 4)),
                    cell_current = Some (if i = pulse then - 1 else 0),
                    cell_condition = None\<rparr>)"
      and "g = (\<lambda>i. \<lparr>TimeMin = real i, Vol = (if i = pulse then 39 / 10 else 4),
                     Crate = (if i = pulse then - 1 else 0)\<rparr>)"
    for f g and xs :: "nat list"
    using that by (induction xs) (simp_all add: dropna_def)
  then have "dropna (body (pulse_frame pulse gap)) =
     map (\<lambda>i. \<lparr>TimeMin = real i, Vol = (if i = pulse then 39 / 10 else 4),
                 Crate = (if i = pulse then - 1 else 0)\<rparr>)
       (filter (\<lambda>i. i \<noteq> gap) [0..<24])"
    by (simp add: pulse_frame_def)
  then show ?thesis
    by (simp add: preprocess_data_def pulse_frame_sorted)
qed

lemma pulse_frame_index:
  "preprocess_index (pulse_frame pulse gap) = map int (filter (\<lambda>i. i \<noteq> gap) [0..<24])"
proof -
  have len: "length (body (pulse_frame pulse gap)) = 24"
    by (simp add: pulse_frame_def)
  have "filter (\<lambda>i. cell_voltage (body (pulse_frame pulse gap) ! i) \<noteq> None \<and>
                     cell_current (body (pulse_frame pulse gap) ! i) \<noteq> None) [0..<24] =
        filter (\<lambda>i. i \<noteq> gap) [0..<24]"
    by (rule filter_cong) (simp_all add: pulse_frame_def)
  then show ?thesis
    by (simp add: preprocess_index_def pulse_frame_sorted len)
qed

lemma late_gap_pulse_points:
  "pulse_points (preprocess_data (pulse_frame 21 22)) = [21, 22]"
  by (simp add: pulse_frame_rows pulse_points_def current_diff_def quantile_def
        exceeds_def upt_rec)

lemma early_gap_pulse_points:
  "pulse_points (preprocess_data (pulse_frame 22 0)) = [21, 22]"
  by (simp add: pulse_frame_rows pulse_points_def current_diff_def quantile_def
        exceeds_def upt_rec)

text \<open>
  C6. The pulse end is to be the row 10 rows after the pulse start, or the last row if
  fewer rows remain. The code takes the label of the pulse start, adds 10, caps the sum
  at the number of rows less one and reads the row that carries this label. On a table
  from which the loader dropped a row the labels are not the positions.

  \<open>SaveData1.csv\<close> with 24 rows, the pulse in row 21 and an empty voltage cell in row
  22: the loader returns 23 rows with the labels 0 to 21 and 23; the candidates are the
  last two rows, the pulse start has the label 21, the pulse end is the label
  \<open>min (21 + 10) 22 = 22\<close>, which no row carries, and \<open>df.loc\<close> raises
  \<open>KeyError\<close>. With the pulse in row 22 and the empty cell in row 0 the labels are 1
  to 23, the pulse start has the label 22, the pulse end is \<open>min (22 + 10) 22 = 22\<close>,
  the pulse start itself, and the code returns 0. In both tables the last row follows
  the pulse start, 0.1 V higher and 1 C apart: the resistance between the two rows is
  100.
\<close>

theorem C6_dropped_row_misplaces_pulse_end:
  "pne_load_cycle \<lparr>savedata = [(1, pulse_frame 21 22)], restore = []\<rparr> 1
   = Inr (preprocess_data (pulse_frame 21 22)) \<and>
   preprocess_index (pulse_frame 21 22) = map int ([0..<22] @ [23]) \<and>
   length (preprocess_data (pulse_frame 21 22)) = 23 \<and>
   pulse_points (preprocess_data (pulse_frame 21 22)) = [21, 22] \<and>
   calculate_ir (preprocess_index (pulse_frame 21 22)) (preprocess_data (pulse_frame 21 22))
   = Inl (LabelNotFound 22) \<and>
   exn_class_of (LabelNotFound 22) = KeyError \<and>
   spec_calculate_ir (preprocess_data (pulse_frame 21 22)) = 100 \<and>
   pne_load_cycle \<lparr>savedata = [(1, pulse_frame 22 0)], restore = []\<rparr> 1
   = Inr (preprocess_data (pulse_frame 22 0)) \<and>
   preprocess_index (pulse_frame 22 0) = map int [1..<24] \<and>
   length (preprocess_data (pulse_frame 22 0)) = 23 \<and>
   pulse_points (preprocess_data (pulse_frame 22 0)) = [21, 22] \<and>
   calculate_ir (preprocess_index (pulse_frame 22 0)) (preprocess_data (pulse_frame 22 0))
   = Inr 0 \<and>
   spec_calculate_ir (preprocess_data (pulse_frame 22 0)) = 100"
proof -
  have load: "pne_load_cycle \<lparr>savedata = [(1, pulse_frame pulse gap)], restore = []\<rparr> 1
      = Inr (preprocess_data (pulse_frame pulse gap))" for pulse gap
  proof -
    have "columns (pulse_frame pulse gap) = [''TimeMin'', ''Vol'', ''Crate'']"
      by (simp add: pulse_frame_def)
    then show ?thesis
      by (simp add: pne_load_cycle_def validate_data_def)
  qed
  have idx1: "preprocess_index (pulse_frame 21 22) = map int ([0..<22] @ [23])"
    by (simp add: pulse_frame_index upt_rec)
  have idx2: "preprocess_index (pulse_frame 22 0) = map int [1..<24]"
    by (simp add: pulse_frame_index upt_rec)
  have len1: "length (preprocess_data (pulse_frame 21 22)) = 23"
    using length_preprocess_index [of "pulse_frame 21 22"] by (simp add: idx1)
  have len2: "length (preprocess_data (pulse_frame 22 0)) = 23"
    using length_preprocess_index [of "pulse_frame 22 0"] by (simp add: idx2)
  have ir1: "calculate_ir (preprocess_index (pulse_frame 21 22))
      (preprocess_data (pulse_frame 21 22)) = Inl (LabelNotFound 22)"
    unfolding calculate_ir_def late_gap_pulse_points len1 idx1 Let_def
    by (simp add: loc_def upt_rec pulse_frame_rows)
  have ir2: "calculate_ir (preprocess_index (pulse_frame 22 0))
      (preprocess_data (pulse_frame 22 0)) = Inr 0"
    unfolding calculate_ir_def early_gap_pulse_points len2 idx2 Let_def
    by (simp add: loc_def upt_rec pulse_frame_rows)
  have sp1: "spec_calculate_ir (preprocess_data (pulse_frame 21 22)) = 100"
    unfolding spec_calculate_ir_def late_gap_pulse_points len1 Let_def
    by (simp add: pulse_frame_rows upt_rec)
  have sp2: "spec_calculate_ir (preprocess_data (pulse_frame 22 0)) = 100"
    unfolding spec_calculate_ir_def early_gap_pulse_points len2 Let_def
    by (simp add: pulse_frame_rows upt_rec)
  show ?thesis
    by (intro conjI load idx1 idx2 len1 len2 late_gap_pulse_points early_gap_pulse_points
          ir1 ir2 sp1 sp2 exn_class_of.simps)
qed

section \<open>Properties of the lifecycle prediction\<close>

lemma predict_lifecycle_unfold:
  assumes "subscript fade ''initial_capacity'' = Inr initial"
    and "subscript fade ''linear_slope'' = Inr slope"
  shows "predict_lifecycle df fade =
     (if initial \<le> 0 \<or> slope \<ge> 0
      then Inr [(''eol_capacity'', 0), (''predicted_eol_cycle'', 0), (''remaining_cycles'', 0)]
      else if df = [] then Inl OutOfBounds
      else Inr [(''eol_capacity'', initial * (8 / 10)),
                (''predicted_eol_cycle'',
                   real_of_int (py_int ((initial * (8 / 10) - initial) / slope))),
                (''current_cycle'', real_of_int (Cycle (last df))),
                (''remaining_cycles'',
                   max 0 (real_of_int (py_int ((initial * (8 / 10) - initial) / slope)) -
                          real_of_int (Cycle (last df))))])"
  using assms by (simp add: predict_lifecycle_def Let_def)

text \<open>
  Where the fade mapping has both entries and the initial capacity is not positive or the
  slope is not negative, the prediction is all zero.
\<close>

lemma predict_lifecycle_degenerate:
  assumes "subscript fade ''initial_capacity'' = Inr initial"
    and "subscript fade ''linear_slope'' = Inr slope"
    and "initial \<le> 0 \<or> slope \<ge> 0"
  shows "predict_lifecycle df fade =
     Inr [(''eol_capacity'', 0), (''predicted_eol_cycle'', 0), (''remaining_cycles'', 0)]"
  using assms(3) by (simp only: predict_lifecycle_unfold [OF assms(1,2)] if_True)

text \<open>
  The fade analysis of a series of fewer than two cycles is the mapping of five zero
  entries, whatever the series holds; it has no entry \<open>linear_slope\<close>, and the
  lifecycle prediction, which reads that entry before its test, raises \<open>KeyError\<close>.
\<close>

lemma short_series_fade:
  "length capacity_df < 2 \<Longrightarrow>
     analyze_capacity_fade p capacity_df =
       Inr [(''initial_capacity'', 0), (''final_capacity'', 0), (''absolute_fade'', 0),
            (''relative_fade'', 0), (''fade_per_cycle'', 0)]"
  by (simp add: analyze_capacity_fade_def)

lemma short_series_prediction_raises:
  assumes "length capacity_df < 2" and "analyze_capacity_fade p capacity_df = Inr fade"
  shows "predict_lifecycle capacity_df fade = Inl (MissingKey ''linear_slope'')"
proof -
  have "fade = [(''initial_capacity'', 0), (''final_capacity'', 0), (''absolute_fade'', 0),
                (''relative_fade'', 0), (''fade_per_cycle'', 0)]"
    using short_series_fade [OF assms(1), of p] assms(2) by simp
  then show ?thesis
    by (simp add: predict_lifecycle_def subscript_def)
qed

text \<open>
  C5. The reliability analyzer on a series of one cycle, of discharge capacity 100 at
  cycle 1: the fade analysis reports the initial capacity 0, for which the prediction is
  to be all zero, with end-of-life capacity, predicted end-of-life cycle and remaining
  cycles equal to 0. The fade mapping has no entry \<open>linear_slope\<close>, and
  \<open>_predict_lifecycle\<close> raises \<open>KeyError\<close> on reading it; no prediction is
  returned.
\<close>

theorem C5_single_cycle_series_raises:
  "analyze_capacity_fade p [\<lparr>Cycle = 1, Discharge = 100, Charge = 101, Eff = 99\<rparr>]
   = Inr [(''initial_capacity'', 0), (''final_capacity'', 0), (''absolute_fade'', 0),
          (''relative_fade'', 0), (''fade_per_cycle'', 0)] \<and>
   subscript [(''initial_capacity'', 0), (''final_capacity'', 0), (''absolute_fade'', 0),
              (''relative_fade'', 0), (''fade_per_cycle'', 0)] ''initial_capacity''
   = Inr 0 \<and>
   predict_lifecycle [\<lparr>Cycle = 1, Discharge = 100, Charge = 101, Eff = 99\<rparr>]
     [(''initial_capacity'', 0), (''final_capacity'', 0), (''absolute_fade'', 0),
      (''relative_fade'', 0), (''fade_per_cycle'', 0)]
   = Inl (MissingKey ''linear_slope'') \<and>
   exn_class_of (MissingKey ''linear_slope'') = KeyError \<and>
   predict_lifecycle [\<lparr>Cycle = 1, Discharge = 100, Charge = 101, Eff = 99\<rparr>]
     [(''initial_capacity'', 0), (''final_capacity'', 0), (''absolute_fade'', 0),
      (''relative_fade'', 0), (''fade_per_cycle'', 0)]
   \<noteq> Inr [(''eol_capacity'', 0), (''predicted_eol_cycle'', 0), (''remaining_cycles'', 0)]"
  by (simp add: analyze_capacity_fade_def predict_lifecycle_def subscript_def)

section \<open>Properties of the summary report\<close>

lemma subscripts_error:
  "subscripts d ks = Inl e \<Longrightarrow> \<exists>k \<in> set ks. e = MissingKey k \<and> map_of d k = None"
proof (induction ks)
  case Nil
  then show ?case by simp
next
  case (Cons k ks)
  then show ?case
    by (auto simp: subscript_def split: option.splits sum.splits)
qed

lemma subscripts_missing:
  "k \<in> set ks \<Longrightarrow> map_of d k = None \<Longrightarrow> \<exists>k'. subscripts d ks = Inl (MissingKey k')"
proof (induction ks)
  case Nil
  then show ?case by simp
next
  case (Cons a ks)
  then show ?case
    by (auto simp: subscript_def split: option.splits sum.splits)
qed

lemma report_needs_current_cycle:
  assumes "map_of (lifecycle_prediction res) ''current_cycle'' = None"
  shows "\<exists>k. get_summary_report res = Inl (MissingKey k)"
proof -
  have "''current_cycle'' \<in> set [''eol_capacity'', ''predicted_eol_cycle'',
                                     ''current_cycle'', ''remaining_cycles'']"
    by simp
  from subscripts_missing [OF this assms]
  obtain k' where l: "subscripts (lifecycle_prediction res)
      [''eol_capacity'', ''predicted_eol_cycle'', ''current_cycle'', ''remaining_cycles'']
      = Inl (MissingKey k')"
    by blast
  show ?thesis
  proof (cases "subscripts (fade_analysis res)
      [''initial_capacity'', ''final_capacity'', ''relative_fade'', ''fade_per_cycle'']")
    case (Inl e)
    then obtain k where "e = MissingKey k" using subscripts_error by blast
    with Inl show ?thesis by (simp add: get_summary_report_def)
  next
    case fs: (Inr fs)
    show ?thesis
    proof (cases "subscripts (statistical_metrics res)
        [''capacity_mean'', ''capacity_std'', ''capacity_cv'', ''efficiency_mean'']")
      case (Inl e)
      then obtain k where "e = MissingKey k" using subscripts_error by blast
      with Inl fs show ?thesis by (simp add: get_summary_report_def)
    next
      case (Inr ss)
      with fs l show ?thesis by (simp add: get_summary_report_def)
    qed
  qed
qed

text \<open>
  C10. In the degenerate branch of the lifecycle prediction (initial capacity not
  positive or slope not negative) the returned mapping has exactly the keys
  \<open>eol_capacity\<close>, \<open>predicted_eol_cycle\<close>, \<open>remaining_cycles\<close> and no
  \<open>current_cycle\<close>; in the other branch it has these three and \<open>current_cycle\<close>.
  \<open>get_summary_report\<close> reads \<open>current_cycle\<close> without a test: on a result
  whose lifecycle mapping lacks the key it raises \<open>KeyError\<close>, and on a result with
  the degenerate mapping and complete fade and statistics mappings the missing key is
  \<open>current_cycle\<close> itself.
\<close>

theorem C10_current_cycle_key:
  "(subscript fade ''initial_capacity'' = Inr initial \<and>
    subscript fade ''linear_slope'' = Inr slope \<longrightarrow>
      (initial \<le> 0 \<or> slope \<ge> 0 \<longrightarrow>
         (\<exists>d. predict_lifecycle df fade = Inr d \<and>
              map fst d = [''eol_capacity'', ''predicted_eol_cycle'', ''remaining_cycles''] \<and>
              map_of d ''current_cycle'' = None)) \<and>
      (\<not> (initial \<le> 0 \<or> slope \<ge> 0) \<and> df \<noteq> [] \<longrightarrow>
         (\<exists>d. predict_lifecycle df fade = Inr d \<and>
              map fst d = [''eol_capacity'', ''predicted_eol_cycle'', ''current_cycle'',
                           ''remaining_cycles''] \<and>
              map_of d ''current_cycle'' = Some (real_of_int (Cycle (last df)))))) \<and>
   (map_of (lifecycle_prediction res) ''current_cycle'' = None \<longrightarrow>
      (\<exists>k. get_summary_report res = Inl (MissingKey k))) \<and>
   (map fst (lifecycle_prediction res) =
        [''eol_capacity'', ''predicted_eol_cycle'', ''remaining_cycles''] \<and>
    (\<exists>fs. subscripts (fade_analysis res)
            [''initial_capacity'', ''final_capacity'', ''relative_fade'', ''fade_per_cycle'']
          = Inr fs) \<and>
    (\<exists>ss. subscripts (statistical_metrics res)
            [''capacity_mean'', ''capacity_std'', ''capacity_cv'', ''efficiency_mean'']
          = Inr ss) \<longrightarrow>
      get_summary_report res = Inl (MissingKey ''current_cycle''))"
proof (intro conjI impI)
  assume k: "subscript fade ''initial_capacity'' = Inr initial \<and>
    subscript fade ''linear_slope'' = Inr slope"
  note u = predict_lifecycle_unfold [OF conjunct1 [OF k] conjunct2 [OF k], of df]
  show "\<exists>d. predict_lifecycle df fade = Inr d \<and>
              map fst d = [''eol_capacity'', ''predicted_eol_cycle'', ''remaining_cycles''] \<and>
              map_of d ''current_cycle'' = None"
    if "initial \<le> 0 \<or> slope \<ge> 0"
    using that by (simp add: u)
  show "\<exists>d. predict_lifecycle df fade = Inr d \<and>
              map fst d = [''eol_capacity'', ''predicted_eol_cycle'', ''current_cycle'',
                           ''remaining_cycles''] \<and>
              map_of d ''current_cycle'' = Some (real_of_int (Cycle (last df)))"
    if "\<not> (initial \<le> 0 \<or> slope \<ge> 0) \<and> df \<noteq> []"
    using that by (simp add: u)
next
  assume "map_of (lifecycle_prediction res) ''current_cycle'' = None"
  then show "\<exists>k. get_summary_report res = Inl (MissingKey k)"
    by (rule report_needs_current_cycle)
next
  assume a: "map fst (lifecycle_prediction res) =
        [''eol_capacity'', ''predicted_eol_cycle'', ''remaining_cycles''] \<and>
    (\<exists>fs. subscripts (fade_analysis res)
            [''initial_capacity'', ''final_capacity'', ''relative_fade'', ''fade_per_cycle'']
          = Inr fs) \<and>
    (\<exists>ss. subscripts (statistical_metrics res)
            [''capacity_mean'', ''capacity_std'', ''capacity_cv'', ''efficiency_mean'']
          = Inr ss)"
  then obtain a b c where l: "lifecycle_prediction res =
      [(''eol_capacity'', a), (''predicted_eol_cycle'', b), (''remaining_cycles'', c)]"
    by (auto simp: map_eq_Cons_conv)
  from a obtain fs ss where
    "subscripts (fade_analysis res)
        [''initial_capacity'', ''final_capacity'', ''relative_fade'', ''fade_per_cycle'']
       = Inr fs"
    "subscripts (statistical_metrics res)
        [''capacity_mean'', ''capacity_std'', ''capacity_cv'', ''efficiency_mean'']
       = Inr ss"
    by blast
  then show "get_summary_report res = Inl (MissingKey ''current_cycle'')"
    by (simp add: get_summary_report_def l subscript_def)
qed

theorem C10_current_cycle_key_witness:
  "predict_lifecycle
     [\<lparr>Cycle = 1, Discharge = 50, Charge = 50, Eff = 100\<rparr>,
      \<lparr>Cycle = 2, Discharge = 50, Charge = 50, Eff = 100\<rparr>,
      \<lparr>Cycle = 3, Discharge = 50, Charge = 50, Eff = 100\<rparr>]
     [(''initial_capacity'', 50), (''final_capacity'', 50), (''absolute_fade'', 0),
      (''relative_fade'', 0), (''fade_per_cycle'', 0), (''linear_slope'', 0),
      (''r_squared'', 0), (''p_value'', 1)]
   = Inr [(''eol_capacity'', 0), (''predicted_eol_cycle'', 0), (''remaining_cycles'', 0)] \<and>
   get_summary_report
     \<lparr>fade_analysis =
        [(''initial_capacity'', 50), (''final_capacity'', 50), (''absolute_fade'', 0),
        (''relative_fade'', 0), (''fade_per_cycle'', 0), (''linear_slope'', 0),
        (''r_squared'', 0), (''p_value'', 1)],
      statistical_metrics =
        [(''capacity_mean'', 50), (''capacity_std'', 0), (''capacity_min'', 50),
         (''capacity_max'', 50), (''capacity_cv'', 0), (''efficiency_mean'', 100),
         (''efficiency_std'', 0), (''capacity_ci_lower'', 50), (''capacity_ci_upper'', 50)],
      lifecycle_prediction = [(''eol_capacity'', 0), (''predicted_eol_cycle'', 0), (''remaining_cycles'', 0)],
      reliability_grade = Some ''Excellent''\<rparr>
   = Inl (MissingKey ''current_cycle'') \<and>
   predict_lifecycle
     [\<lparr>Cycle = 1, Discharge = 100, Charge = 101, Eff = 99\<rparr>,
      \<lparr>Cycle = 2, Discharge = 97, Charge = 98, Eff = 99\<rparr>,
      \<lparr>Cycle = 3, Discharge = 94, Charge = 95, Eff = 99\<rparr>]
     [(''initial_capacity'', 100), (''final_capacity'', 94), (''absolute_fade'', 6),
      (''relative_fade'', 6), (''fade_per_cycle'', 2), (''linear_slope'', - 3),
      (''r_squared'', 1), (''p_value'', 0)]
   = Inr [(''eol_capacity'', 80), (''predicted_eol_cycle'', 6), (''current_cycle'', 3),
      (''remaining_cycles'', 3)]"
  using C10_current_cycle_key [of "[(''initial_capacity'', 50), (''final_capacity'', 50), (''absolute_fade'', 0),
      (''relative_fade'', 0), (''fade_per_cycle'', 0), (''linear_slope'', 0),
      (''r_squared'', 0), (''p_value'', 1)]" 50 0
                  "[\<lparr>Cycle = 1, Discharge = 50, Charge = 50, Eff = 100\<rparr>,
      \<lparr>Cycle = 2, Discharge = 50, Charge = 50, Eff = 100\<rparr>,
      \<lparr>Cycle = 3, Discharge = 50, Charge = 50, Eff = 100\<rparr>]"
                  "\<lparr>fade_analysis =
        [(''initial_capacity'', 50), (''final_capacity'', 50), (''absolute_fade'', 0),
        (''relative_fade'', 0), (''fade_per_cycle'', 0), (''linear_slope'', 0),
        (''r_squared'', 0), (''p_value'', 1)],
      statistical_metrics =
        [(''capacity_mean'', 50), (''capacity_std'', 0), (''capacity_min'', 50),
         (''capacity_max'', 50), (''capacity_cv'', 0), (''efficiency_mean'', 100),
         (''efficiency_std'', 0), (''capacity_ci_lower'', 50), (''capacity_ci_upper'', 50)],
      lifecycle_prediction = [(''eol_capacity'', 0), (''predicted_eol_cycle'', 0), (''remaining_cycles'', 0)],
      reliability_grade = Some ''Excellent''\<rparr>"]
        C10_current_cycle_key [of "[(''initial_capacity'', 100), (''final_capacity'', 94), (''absolute_fade'', 6),
      (''relative_fade'', 6), (''fade_per_cycle'', 2), (''linear_slope'', - 3),
      (''r_squared'', 1), (''p_value'', 0)]" 100 "- 3"
                  "[\<lparr>Cycle = 1, Discharge = 100, Charge = 101, Eff = 99\<rparr>,
      \<lparr>Cycle = 2, Discharge = 97, Charge = 98, Eff = 99\<rparr>,
      \<lparr>Cycle = 3, Discharge = 94, Charge = 95, Eff = 99\<rparr>]"
                  "\<lparr>fade_analysis =
        [(''initial_capacity'', 50), (''final_capacity'', 50), (''absolute_fade'', 0),
        (''relative_fade'', 0), (''fade_per_cycle'', 0), (''linear_slope'', 0),
        (''r_squared'', 0), (''p_value'', 1)],
      statistical_metrics =
        [(''capacity_mean'', 50), (''capacity_std'', 0), (''capacity_min'', 50),
         (''capacity_max'', 50), (''capacity_cv'', 0), (''efficiency_mean'', 100),
         (''efficiency_std'', 0), (''capacity_ci_lower'', 50), (''capacity_ci_upper'', 50)],
      lifecycle_prediction = [(''eol_capacity'', 0), (''predicted_eol_cycle'', 0), (''remaining_cycles'', 0)],
      reliability_grade = Some ''Excellent''\<rparr>"]
  by (simp add: subscript_def predict_lifecycle_def py_int_def get_summary_report_def)

section \<open>Properties of the bulk load\<close>

lemma load_loop_skips_file_not_found:
  assumes "\<forall>n \<in> set ns. \<forall>e. load_cycle ld n = Inl e \<longrightarrow> exn_class_of e = FileNotFoundError"
  shows "\<exists>cs'. load_loop ld ns cs = Inr cs' \<and>
           (\<forall>n. has_cycle cs' n \<longleftrightarrow>
                  has_cycle cs n \<or> (n \<in> set ns \<and> (\<exists>df. load_cycle ld n = Inr df)))"
  using assms
proof (induction ns arbitrary: cs)
  case Nil
  then show ?case by simp
next
  case (Cons k ns)
  show ?case
  proof (cases "load_cycle ld k")
    case (Inl e)
    then have c: "exn_class_of e = FileNotFoundError" using Cons.prems by simp
    obtain cs' where "load_loop ld ns cs = Inr cs'"
      "\<forall>n. has_cycle cs' n \<longleftrightarrow>
             has_cycle cs n \<or> (n \<in> set ns \<and> (\<exists>df. load_cycle ld n = Inr df))"
      using Cons.IH [of cs] Cons.prems by auto
    then show ?thesis using Inl c by auto
  next
    case (Inr df)
    obtain cs' where "load_loop ld ns (AList.update k df cs) = Inr cs'"
      "\<forall>n. has_cycle cs' n \<longleftrightarrow>
             has_cycle (AList.update k df cs) n \<or>
             (n \<in> set ns \<and> (\<exists>df. load_cycle ld n = Inr df))"
      using Cons.IH [of "AList.update k df cs"] Cons.prems by auto
    then show ?thesis
      using Inr by (auto simp: has_cycle_def dom_update)
  qed
qed

lemma load_loop_aborts:
  assumes "k \<in> set ns" and "load_cycle ld k = Inl e"
    and "exn_class_of e \<noteq> FileNotFoundError"
  shows "\<exists>e'. load_loop ld ns cs = Inl e' \<and> exn_class_of e' \<noteq> FileNotFoundError"
  using assms(1)
proof (induction ns arbitrary: cs)
  case Nil
  then show ?case by simp
next
  case (Cons n ns)
  show ?case
  proof (cases "n = k")
    case True
    then show ?thesis using assms(2,3) by simp
  next
    case False
    then have "k \<in> set ns" using Cons.prems by simp
    from Cons.IH [OF this] show ?thesis
      by (cases "load_cycle ld n") auto
  qed
qed

lemma pne_missing_file:
  "map_of (savedata d) n = None \<Longrightarrow> map_of (restore d) n = None \<Longrightarrow>
     load_cycle (PNEDataLoader d) n = Inl (SaveDataNotFound n)"
  by (simp add: pne_load_cycle_def)

lemma toyo_missing_cycle:
  "load_raw_data d = Inr df \<Longrightarrow>
   \<forall>r \<in> set (body df). \<not> contains_cycle (cell_condition r) n \<Longrightarrow>
     load_cycle (ToyoDataLoader d) n =
       Inl (if body df \<noteq> [] \<and> list_all (\<lambda>r. cell_condition r = None) (body df)
            then StrAccessor else NoDataForCycle n)"
  by (simp add: toyo_load_cycle_def filter_empty_conv)

lemma toyo_missing_cycle_aborts_bulk_load:
  assumes "load_raw_data d = Inr df"
    and "\<forall>r \<in> set (body df). \<not> contains_cycle (cell_condition r) n"
    and "start \<le> n" and "n \<le> end"
  shows "\<exists>e. load_all_cycles self data_path (ToyoDataLoader d) (Some (start, end)) detected = Inl e"
proof -
  have "n \<in> set [start..end]" using assms(3,4) by simp
  have "exn_class_of (if body df \<noteq> [] \<and> list_all (\<lambda>r. cell_condition r = None) (body df)
                      then StrAccessor else NoDataForCycle n) \<noteq> FileNotFoundError"
    by simp
  from load_loop_aborts [OF \<open>n \<in> set [start..end]\<close> toyo_missing_cycle [OF assms(1,2)] this,
      of "container_cycles self"]
  obtain e' where "load_loop (ToyoDataLoader d) [start..end] (container_cycles self) = Inl e'"
    by auto
  then show ?thesis by (simp add: load_all_cycles_def)
qed

lemma labels_for_cycle_1:
  "contains_cycle (Some ''Cycle 1'') 1" "\<not> contains_cycle (Some ''Cycle 3'') 1"
  by code_simp+

lemma labels_for_cycle_2:
  "\<not> contains_cycle (Some ''Cycle 1'') 2" "\<not> contains_cycle (Some ''Cycle 3'') 2"
  by code_simp+

text \<open>
  C2. With the PNE loader a missing \<open>SaveData\<close> file raises
  \<open>FileNotFoundError\<close> and the cycle is skipped (\<open>pne_missing_file\<close>,
  \<open>load_loop_skips_file_not_found\<close>). With the Toyo loader a cycle number without
  rows in the \<open>Condition\<close> column raises \<open>ValueError\<close>, which
  \<open>load_all_cycles\<close> does not catch: a raw export with the labels \<open>Cycle 1\<close> and
  \<open>Cycle 3\<close>, loaded over the range 1 to 3, stores nothing and leaves the method
  with the error for cycle 2.
\<close>

theorem C2_toyo_gap_aborts_bulk_load:
  "load_all_cycles \<lparr>container_cycles = [], container_metadata = []\<rparr> ''toyo_data''
     (ToyoDataLoader
        (Some \<lparr>columns = [''Time'', ''Voltage'', ''Current'', ''Condition''],
               body = [\<lparr>cell_time = 0, cell_voltage = Some 4, cell_current = Some 1,
                         cell_condition = Some ''Cycle 1''\<rparr>,
                       \<lparr>cell_time = 60, cell_voltage = Some 3, cell_current = Some (- 1),
                         cell_condition = Some ''Cycle 1''\<rparr>,
                       \<lparr>cell_time = 7200, cell_voltage = Some 4, cell_current = Some 1,
                         cell_condition = Some ''Cycle 3''\<rparr>,
                       \<lparr>cell_time = 7260, cell_voltage = Some 3, cell_current = Some (- 1),
                         cell_condition = Some ''Cycle 3''\<rparr>]\<rparr>))
     (Some (1, 3)) (Inr (1, 3))
   = Inl (NoDataForCycle 2) \<and>
   exn_class_of (NoDataForCycle 2) = ValueError"
  by (simp add: load_all_cycles_def upto.simps toyo_load_cycle_def load_raw_data_def
        labels_for_cycle_1 labels_for_cycle_2
        map_columns_def rename_column_def validate_data_def toyo_preprocess_data_def
        preprocess_data_def dropna_def)

section \<open>Properties of the read operations over the store\<close>

lemma preserved_refl: "preserved h h"
  by (simp add: preserved_def)

lemma preserved_trans: "preserved h0 h1 \<Longrightarrow> preserved h1 h2 \<Longrightarrow> preserved h0 h2"
  unfolding preserved_def
  by (metis le_trans min.absorb_iff2 take_take min.commute)

lemma preserved_append: "preserved h (h @ xs)"
  by (simp add: preserved_def)

lemma preserved_update:
  "preserved h0 h \<Longrightarrow> length h0 \<le> a \<Longrightarrow> preserved h0 (h[a := obj])"
  by (simp add: preserved_def)

lemma preserved_nth: "preserved h h' \<Longrightarrow> a < length h \<Longrightarrow> h' ! a = h ! a"
  unfolding preserved_def by (metis nth_take)

lemma preserved_df_at: "preserved h h' \<Longrightarrow> a < length h \<Longrightarrow> df_at h' a = df_at h a"
  using preserved_nth [of h h' a] by (simp add: df_at_def preserved_def)

lemma preserved_list_at: "preserved h h' \<Longrightarrow> a < length h \<Longrightarrow> list_at h' a = list_at h a"
  using preserved_nth [of h h' a] by (simp add: list_at_def preserved_def)

lemma meta_refs_member:
  "(k, RefCycles l) \<in> set d \<Longrightarrow> l \<in> set (meta_refs d)"
  by (induction d rule: meta_refs.induct) auto

lemma view_preserved:
  assumes "well_formed self h" and "preserved h h'"
  shows "view self h' = view self h"
proof -
  have c: "map (\<lambda>(n, a). (n, df_at h' a)) (h_cycles self) =
           map (\<lambda>(n, a). (n, df_at h a)) (h_cycles self)"
  proof (rule map_cong [OF refl])
    fix p assume p: "p \<in> set (h_cycles self)"
    then have "snd p \<in> set (owned self)" by (simp add: owned_def)
    then have "snd p < length h" using assms(1) by (simp add: well_formed_def)
    then show "(case p of (n, a) \<Rightarrow> (n, df_at h' a)) = (case p of (n, a) \<Rightarrow> (n, df_at h a))"
      using preserved_df_at [OF assms(2)] by (simp add: split_beta)
  qed
  have m: "map (\<lambda>(k, v). (k, resolve h' v)) (h_metadata self) =
           map (\<lambda>(k, v). (k, resolve h v)) (h_metadata self)"
  proof (rule map_cong [OF refl])
    fix p assume p: "p \<in> set (h_metadata self)"
    have "resolve h' (snd p) = resolve h (snd p)"
    proof (cases "snd p")
      case (RefCycles l)
      then have "(fst p, RefCycles l) \<in> set (h_metadata self)" using p by (metis prod.collapse)
      then have "l \<in> set (owned self)" by (simp add: owned_def meta_refs_member)
      then have "l < length h" using assms(1) by (simp add: well_formed_def)
      then show ?thesis using RefCycles preserved_list_at [OF assms(2)] by simp
    qed simp_all
    then show "(case p of (k, v) \<Rightarrow> (k, resolve h' v)) = (case p of (k, v) \<Rightarrow> (k, resolve h v))"
      by (simp add: split_beta)
  qed
  show ?thesis by (simp add: view_def c m)
qed

lemma view_update_fresh:
  assumes "well_formed self h" and "preserved h h'" and "length h \<le> a"
  shows "view self (h'[a := obj]) = view self h"
  by (rule view_preserved [OF assms(1) preserved_update [OF assms(2,3)]])

lemma copy_df_preserved:
  "copy_df h a = (b, h') \<Longrightarrow> b = length h \<and> length h' = Suc (length h) \<and> preserved h h'"
  by (auto simp: copy_df_def alloc_def preserved_def)

lemma h_get_cycle_frame:
  assumes "h_get_cycle self h n = (r, h')"
  shows "preserved h h' \<and> (\<forall>a. r = Inr a \<longrightarrow> length h \<le> a \<and> a < length h')"
  using assms
  by (auto simp: h_get_cycle_def preserved_refl copy_df_def alloc_def preserved_def
      split: if_splits prod.splits)

lemma h_get_cycle_range_loop_frame:
  assumes "h_get_cycle_range_loop self ns dfs c h = (dfs', h')"
    and "preserved h0 h" and "\<forall>a \<in> set dfs. length h0 \<le> a"
  shows "preserved h0 h' \<and> (\<forall>a \<in> set dfs'. length h0 \<le> a)"
  using assms
proof (induction ns arbitrary: dfs c h)
  case Nil
  then show ?case by simp
next
  case (Cons n ns)
  show ?case
  proof (cases "h_has_cycle self n")
    case False
    then show ?thesis using Cons by simp
  next
    case True
    obtain df h1 where cp: "copy_df h (h_stored self n) = (df, h1)" by (cases "copy_df h (h_stored self n)")
    define h2 where "h2 = (if positive c then h1[df := DataFrame (shift_time (the c) (df_at h1 df))] else h1)"
    from copy_df_preserved [OF cp] have df: "df = length h" and p1: "preserved h h1" by simp_all
    have le: "length h0 \<le> df" using Cons.prems(2) df by (simp add: preserved_def)
    have p01: "preserved h0 h1" by (rule preserved_trans [OF Cons.prems(2) p1])
    have p2: "preserved h0 h2" using p01 le by (simp add: h2_def preserved_update)
    have step: "h_get_cycle_range_loop self (n # ns) dfs c h =
                h_get_cycle_range_loop self ns (dfs @ [df]) (series_max (map TimeMin (df_at h2 df))) h2"
      using True cp by (simp add: h2_def Let_def)
    have fr: "\<forall>a \<in> set (dfs @ [df]). length h0 \<le> a" using Cons.prems(3) le by simp
    show ?thesis
      using Cons.IH [OF _ p2 fr] Cons.prems(1) unfolding step by simp
  qed
qed

lemma h_get_cycle_range_frame:
  assumes "h_get_cycle_range self h s e = (r, h')"
  shows "preserved h h' \<and> (\<forall>a. r = Inr a \<longrightarrow> length h \<le> a \<and> a < length h')"
proof -
  obtain dfs h1 where l: "h_get_cycle_range_loop self [s..e] [] (Some 0) h = (dfs, h1)"
    by (cases "h_get_cycle_range_loop self [s..e] [] (Some 0) h")
  from h_get_cycle_range_loop_frame [OF l preserved_refl] have p: "preserved h h1" by simp
  show ?thesis
  proof (cases "dfs = []")
    case True
    then show ?thesis using assms l p by (auto simp: h_get_cycle_range_def)
  next
    case False
    then have "r = Inr (length h1)" and h': "h' = h1 @ [DataFrame (concat (map (df_at h1) dfs))]"
      using assms l by (auto simp: h_get_cycle_range_def alloc_def)
    moreover have "preserved h h'"
      unfolding h' by (rule preserved_trans [OF p preserved_append])
    moreover have "length h \<le> length h1" using p by (simp add: preserved_def)
    ultimately show ?thesis by (simp add: h')
  qed
qed

lemma h_get_cycles_loop_frame:
  assumes "h_get_cycles_loop self ns result missing h = ((result', missing'), h')"
    and "preserved h0 h" and "\<forall>a \<in> set (map snd result). length h0 \<le> a"
  shows "preserved h0 h' \<and> (\<forall>a \<in> set (map snd result'). length h0 \<le> a)"
  using assms
proof (induction ns arbitrary: result missing h)
  case Nil
  then show ?case by simp
next
  case (Cons n ns)
  show ?case
  proof (cases "h_has_cycle self n")
    case False
    then show ?thesis using Cons.IH [OF _ Cons.prems(2,3)] Cons.prems(1) by simp
  next
    case True
    obtain a h1 where cp: "copy_df h (h_stored self n) = (a, h1)" by (cases "copy_df h (h_stored self n)")
    from copy_df_preserved [OF cp] have a: "a = length h" and p1: "preserved h h1" by simp_all
    have le: "length h0 \<le> a" using Cons.prems(2) a by (simp add: preserved_def)
    have p01: "preserved h0 h1" by (rule preserved_trans [OF Cons.prems(2) p1])
    have fr: "\<forall>b \<in> set (map snd (AList.update n a result)). length h0 \<le> b"
    proof
      fix b assume "b \<in> set (map snd (AList.update n a result))"
      then obtain k where "(k, b) \<in> set (AList.update n a result)" by auto
      then have "b = a \<or> (k, b) \<in> set result"
        by (induction result) (auto split: if_splits)
      then show "length h0 \<le> b" using le Cons.prems(3) by force
    qed
    have step: "h_get_cycles_loop self (n # ns) result missing h =
                h_get_cycles_loop self ns (AList.update n a result) missing h1"
      using True cp by simp
    show ?thesis
      using Cons.IH [OF _ p01 fr] Cons.prems(1) unfolding step by simp
  qed
qed

lemma h_get_cycles_frame:
  assumes "h_get_cycles self h ns = (r, h')"
  shows "preserved h h' \<and>
         (\<forall>d. r = Inr d \<longrightarrow> length h \<le> d \<and> d < length h' \<and>
            (\<exists>result. h' ! d = CycleDict result \<and> (\<forall>a \<in> set (map snd result). length h \<le> a)))"
proof -
  obtain result missing h1 where l: "h_get_cycles_loop self ns [] [] h = ((result, missing), h1)"
    by (metis prod.collapse)
  from h_get_cycles_loop_frame [OF l preserved_refl]
  have p: "preserved h h1" and fr: "\<forall>a \<in> set (map snd result). length h \<le> a" by simp_all
  show ?thesis
  proof (cases "missing = []")
    case False
    then show ?thesis using assms l p by (auto simp: h_get_cycles_def)
  next
    case True
    then have r: "r = Inr (length h1)" and h': "h' = h1 @ [CycleDict result]"
      using assms l by (auto simp: h_get_cycles_def alloc_def)
    have "preserved h h'"
      unfolding h' by (rule preserved_trans [OF p preserved_append])
    moreover have "length h \<le> length h1" using p by (simp add: preserved_def)
    ultimately show ?thesis using fr by (simp add: r h')
  qed
qed

lemma h_get_metadata_frame:
  assumes "h_get_metadata self h = (m, h')"
  shows "preserved h h' \<and> m = length h \<and> m < length h' \<and> h' ! m = MetaDict (h_metadata self)"
  using assms by (auto simp: h_get_metadata_def alloc_def preserved_def)

lemma view_has_cycle: "has_cycle (container_cycles (view self h)) n \<longleftrightarrow> h_has_cycle self n"
  by (simp add: has_cycle_def h_has_cycle_def view_def comp_def split_beta)

lemma view_stored:
  "h_has_cycle self n \<Longrightarrow>
     stored (container_cycles (view self h)) n = df_at h (h_stored self n)"
proof -
  assume "h_has_cycle self n"
  then have "map_of (h_cycles self) n \<noteq> None"
    by (simp add: h_has_cycle_def map_of_eq_None_iff)
  then obtain a where a: "map_of (h_cycles self) n = Some a" by blast
  have "map_of (map (\<lambda>(n, a). (n, df_at h a)) xs) n = map_option (df_at h) (map_of xs n)" for xs
    by (induction xs) auto
  then show ?thesis
    using a by (simp add: stored_def view_def h_stored_def)
qed

lemma df_at_append_old: "a < length h \<Longrightarrow> df_at (h @ xs) a = df_at h a"
  by (simp add: df_at_def nth_append)

lemma df_at_append_new: "df_at (h @ [DataFrame t]) (length h) = t"
  by (simp add: df_at_def)

lemma h_get_cycle_refines:
  assumes "well_formed self h" and "h_get_cycle self h n = (r, h')"
  shows "get_cycle (container_cycles (view self h)) n = map_sum id (df_at h') r"
proof (cases "h_has_cycle self n")
  case False
  then show ?thesis
    using assms(2) by (auto simp: h_get_cycle_def get_cycle_def view_has_cycle)
next
  case True
  then have "r = Inr (length h)"
    and "h' = h @ [DataFrame (df_at h (h_stored self n))]"
    using assms(2) by (auto simp: h_get_cycle_def copy_df_def alloc_def)
  then show ?thesis
    using True by (simp add: get_cycle_def view_has_cycle view_stored df_at_append_new)
qed

lemma map_values_update:
  "map (\<lambda>(k, v). (k, f v)) (AList.update k' v' xs) =
     AList.update k' (f v') (map (\<lambda>(k, v). (k, f v)) xs)"
  by (induction xs) auto

lemma map_values_cong:
  "\<forall>a \<in> set (map snd xs). f a = g a \<Longrightarrow>
     map (\<lambda>(k, v). (k, f v)) xs = map (\<lambda>(k, v). (k, g v)) xs"
  by (induction xs) auto

lemma df_at_update_other: "a \<noteq> b \<Longrightarrow> df_at (h[b := obj]) a = df_at h a"
  by (simp add: df_at_def)

lemma df_at_update_same: "b < length h \<Longrightarrow> df_at (h[b := DataFrame t]) b = t"
  by (simp add: df_at_def)

lemma stored_in_grown_heap:
  assumes "well_formed self h0" and "preserved h0 h" and "h_has_cycle self n"
  shows "df_at h (h_stored self n) = stored (container_cycles (view self h0)) n"
proof -
  have "map_of (h_cycles self) n \<noteq> None"
    using assms(3) by (simp add: h_has_cycle_def map_of_eq_None_iff)
  then obtain a where a: "map_of (h_cycles self) n = Some a" by blast
  then have "a \<in> set (owned self)"
    by (auto simp: owned_def dest: map_of_SomeD intro: rev_image_eqI)
  then have "a < length h0" using assms(1) by (simp add: well_formed_def)
  then show ?thesis
    using a preserved_df_at [OF assms(2)] view_stored [OF assms(3), of h0]
    by (simp add: h_stored_def)
qed

lemma h_get_cycles_loop_refines:
  assumes "h_get_cycles_loop self ns result missing h = ((result', missing'), h')"
    and "well_formed self h0" and "preserved h0 h"
    and "\<forall>a \<in> set (map snd result). a < length h"
  shows "get_cycles_loop (container_cycles (view self h0)) ns
           (map (\<lambda>(k, a). (k, df_at h a)) result) missing =
         (map (\<lambda>(k, a). (k, df_at h' a)) result', missing') \<and>
         (\<forall>a \<in> set (map snd result'). a < length h')"
  using assms(1,3,4)
proof (induction ns arbitrary: result missing h)
  case Nil
  then show ?case by simp
next
  case (Cons n ns)
  show ?case
  proof (cases "h_has_cycle self n")
    case False
    then show ?thesis
      using Cons.IH [OF _ Cons.prems(2,3)] Cons.prems(1) by (simp add: view_has_cycle)
  next
    case True
    define t where "t = df_at h (h_stored self n)"
    define h1 where "h1 = h @ [DataFrame t]"
    have st: "stored (container_cycles (view self h0)) n = t"
      unfolding t_def by (rule stored_in_grown_heap [OF assms(2) Cons.prems(2) True, symmetric])
    have step: "h_get_cycles_loop self (n # ns) result missing h =
                h_get_cycles_loop self ns (AList.update n (length h) result) missing h1"
      using True by (simp add: copy_df_def alloc_def h1_def t_def)
    have p1: "preserved h0 h1"
      unfolding h1_def by (rule preserved_trans [OF Cons.prems(2) preserved_append])
    have fr: "\<forall>a \<in> set (map snd (AList.update n (length h) result)). a < length h1"
    proof
      fix b assume "b \<in> set (map snd (AList.update n (length h) result))"
      then obtain k where "(k, b) \<in> set (AList.update n (length h) result)" by auto
      then have "b = length h \<or> (k, b) \<in> set result"
        by (induction result) (auto split: if_splits)
      then show "b < length h1" using Cons.prems(3) by (force simp: h1_def)
    qed
    have old: "map (\<lambda>(k, a). (k, df_at h1 a)) result = map (\<lambda>(k, a). (k, df_at h a)) result"
      by (rule map_values_cong) (use Cons.prems(3) in \<open>auto simp: h1_def df_at_append_old\<close>)
    have img: "map (\<lambda>(k, a). (k, df_at h1 a)) (AList.update n (length h) result) =
               AList.update n t (map (\<lambda>(k, a). (k, df_at h a)) result)"
      by (simp add: map_values_update old) (simp add: h1_def df_at_append_new)
    have "get_cycles_loop (container_cycles (view self h0)) (n # ns)
            (map (\<lambda>(k, a). (k, df_at h a)) result) missing =
          get_cycles_loop (container_cycles (view self h0)) ns
            (map (\<lambda>(k, a). (k, df_at h1 a)) (AList.update n (length h) result)) missing"
      using True by (simp add: view_has_cycle st img)
    then have e: "get_cycles_loop (container_cycles (view self h0)) (n # ns)
            (map (\<lambda>(k, a). (k, df_at h a)) result) missing =
          get_cycles_loop (container_cycles (view self h0)) ns
            (map (\<lambda>(k, a). (k, df_at h1 a)) (AList.update n (length h) result)) missing" .
    have "h_get_cycles_loop self ns (AList.update n (length h) result) missing h1 =
            ((result', missing'), h')"
      using Cons.prems(1) step by simp
    from Cons.IH [OF this p1 fr] show ?thesis
      unfolding e .
  qed
qed

lemma h_get_cycles_refines:
  assumes "well_formed self h" and "h_get_cycles self h ns = (r, h')"
  shows "case r of
           Inl e \<Rightarrow> get_cycles (container_cycles (view self h)) ns = Inl e
         | Inr d \<Rightarrow> \<exists>result. h' ! d = CycleDict result \<and>
                     get_cycles (container_cycles (view self h)) ns =
                       Inr (map (\<lambda>(k, a). (k, df_at h' a)) result)"
proof -
  obtain result missing h1 where l: "h_get_cycles_loop self ns [] [] h = ((result, missing), h1)"
    by (metis prod.collapse)
  from h_get_cycles_loop_refines [OF l assms(1) preserved_refl]
  have p: "get_cycles_loop (container_cycles (view self h)) ns [] [] =
           (map (\<lambda>(k, a). (k, df_at h1 a)) result, missing)"
    and lt: "\<forall>a \<in> set (map snd result). a < length h1"
    by simp_all
  show ?thesis
  proof (cases "missing = []")
    case False
    then have "r = Inl (CyclesNotFound missing)"
      using assms(2) l by (auto simp: h_get_cycles_def)
    then show ?thesis using False p by (simp add: get_cycles_def)
  next
    case True
    then have r: "r = Inr (length h1)" and h': "h' = h1 @ [CycleDict result]"
      using assms(2) l by (auto simp: h_get_cycles_def alloc_def)
    have "map (\<lambda>(k, a). (k, df_at h' a)) result = map (\<lambda>(k, a). (k, df_at h1 a)) result"
      by (rule map_values_cong) (use lt in \<open>auto simp: h' df_at_append_old\<close>)
    then show ?thesis using True p by (simp add: r h' get_cycles_def)
  qed
qed

lemma h_get_cycle_range_loop_refines:
  assumes "h_get_cycle_range_loop self ns dfs c h = (dfs', h')"
    and "well_formed self h0" and "preserved h0 h"
    and "\<forall>a \<in> set dfs. a < length h"
  shows "get_cycle_range_loop (container_cycles (view self h0)) ns (map (df_at h) dfs) c =
           map (df_at h') dfs' \<and>
         (\<forall>a \<in> set dfs'. a < length h')"
  using assms(1,3,4)
proof (induction ns arbitrary: dfs c h)
  case Nil
  then show ?case by simp
next
  case (Cons n ns)
  show ?case
  proof (cases "h_has_cycle self n")
    case False
    then show ?thesis
      using Cons.IH [OF _ Cons.prems(2,3)] Cons.prems(1) by (simp add: view_has_cycle)
  next
    case True
    define t where "t = df_at h (h_stored self n)"
    define t' where "t' = (if positive c then shift_time (the c) t else t)"
    define h1 where "h1 = h @ [DataFrame t]"
    define h2 where "h2 = (if positive c then h1[length h := DataFrame (shift_time (the c) (df_at h1 (length h)))] else h1)"
    have st: "stored (container_cycles (view self h0)) n = t"
      unfolding t_def by (rule stored_in_grown_heap [OF assms(2) Cons.prems(2) True, symmetric])
    have step: "h_get_cycle_range_loop self (n # ns) dfs c h =
                h_get_cycle_range_loop self ns (dfs @ [length h])
                  (series_max (map TimeMin (df_at h2 (length h)))) h2"
      using True by (simp add: copy_df_def alloc_def h1_def h2_def t_def Let_def)
    have len2: "length h2 = Suc (length h)" by (simp add: h2_def h1_def)
    have new: "df_at h2 (length h) = t'"
      by (simp add: h2_def t'_def h1_def df_at_append_new df_at_update_same)
    have old: "df_at h2 b = df_at h b" if "b < length h" for b
      using that by (simp add: h2_def h1_def df_at_update_other df_at_append_old)
    have p2: "preserved h0 h2"
    proof -
      have "preserved h0 h1"
        unfolding h1_def by (rule preserved_trans [OF Cons.prems(2) preserved_append])
      moreover have "length h0 \<le> length h" using Cons.prems(2) by (simp add: preserved_def)
      ultimately show ?thesis by (simp add: h2_def preserved_update)
    qed
    have fr: "\<forall>a \<in> set (dfs @ [length h]). a < length h2"
      using Cons.prems(3) len2 by auto
    have img: "map (df_at h2) (dfs @ [length h]) = map (df_at h) dfs @ [t']"
      using Cons.prems(3) old new by simp
    have "get_cycle_range_loop (container_cycles (view self h0)) (n # ns) (map (df_at h) dfs) c =
             get_cycle_range_loop (container_cycles (view self h0)) ns
               (map (df_at h) dfs @ [t']) (series_max (map TimeMin t'))"
      using True by (simp add: view_has_cycle st t'_def Let_def)
    then have e: "get_cycle_range_loop (container_cycles (view self h0)) (n # ns) (map (df_at h) dfs) c =
             get_cycle_range_loop (container_cycles (view self h0)) ns
               (map (df_at h2) (dfs @ [length h])) (series_max (map TimeMin (df_at h2 (length h))))"
      by (simp only: img new)
    have "h_get_cycle_range_loop self ns (dfs @ [length h])
            (series_max (map TimeMin (df_at h2 (length h)))) h2 = (dfs', h')"
      using Cons.prems(1) step by simp
    from Cons.IH [OF this p2 fr] show ?thesis
      unfolding e .
  qed
qed

lemma h_get_cycle_range_refines:
  assumes "well_formed self h" and "h_get_cycle_range self h s e = (r, h')"
  shows "get_cycle_range (container_cycles (view self h)) s e = map_sum id (df_at h') r"
proof -
  obtain dfs h1 where l: "h_get_cycle_range_loop self [s..e] [] (Some 0) h = (dfs, h1)"
    by (cases "h_get_cycle_range_loop self [s..e] [] (Some 0) h")
  from h_get_cycle_range_loop_refines [OF l assms(1) preserved_refl]
  have p: "get_cycle_range_loop (container_cycles (view self h)) [s..e] [] (Some 0) =
           map (df_at h1) dfs"
    by simp
  show ?thesis
  proof (cases "dfs = []")
    case True
    then have "r = Inl (NoCyclesInRange s e)"
      using assms(2) l by (auto simp: h_get_cycle_range_def)
    then show ?thesis using True p by (simp add: get_cycle_range_def)
  next
    case False
    then have "r = Inr (length h1)" "h' = h1 @ [DataFrame (concat (map (df_at h1) dfs))]"
      using assms(2) l by (auto simp: h_get_cycle_range_def alloc_def)
    then show ?thesis
      using False p by (simp add: get_cycle_range_def df_at_append_new)
  qed
qed

lemma h_get_metadata_refines:
  assumes "h_get_metadata self h = (m, h')"
  shows "\<exists>d. h' ! m = MetaDict d \<and>
           map (\<lambda>(k, v). (k, resolve h v)) d = get_metadata (view self h)"
proof -
  from h_get_metadata_frame [OF assms]
  have "h' ! m = MetaDict (h_metadata self)" by blast
  then show ?thesis by (simp add: get_metadata_def view_def)
qed

text \<open>
  What the read operations do keep. For a container whose addresses lie in the store,
  every read operation returns a store in which all earlier objects are unchanged, so
  the content of the container is the same before and after. A table returned by
  \<open>get_cycle\<close> or \<open>get_cycle_range\<close> is a new object, and so are the dictionary
  returned by \<open>get_cycles\<close> and every table in it: whatever is written to them
  afterwards, the content of the container stays the same. The mapping returned by
  \<open>get_metadata\<close> is a new object as well, and rebinding or removing its entries
  leaves the content of the container the same; its entries are those of the
  container's own metadata, references included.
\<close>

lemma reads_leave_store_unchanged:
  "well_formed self h \<longrightarrow>
     (case h_get_cycle self h n of
        (r, h') \<Rightarrow>
          preserved h h' \<and> view self h' = view self h \<and>
          (\<forall>a. r = Inr a \<longrightarrow>
             length h \<le> a \<and> (\<forall>obj. view self (h'[a := obj]) = view self h))) \<and>
     (case h_get_cycle_range self h start end of
        (r, h') \<Rightarrow>
          preserved h h' \<and> view self h' = view self h \<and>
          (\<forall>a. r = Inr a \<longrightarrow>
             length h \<le> a \<and> (\<forall>obj. view self (h'[a := obj]) = view self h))) \<and>
     (case h_get_cycles self h cycle_list of
        (r, h') \<Rightarrow>
          preserved h h' \<and> view self h' = view self h \<and>
          (\<forall>d. r = Inr d \<longrightarrow>
             (\<exists>result. h' ! d = CycleDict result \<and>
                (\<forall>a \<in> set (d # map snd result).
                   length h \<le> a \<and> (\<forall>obj. view self (h'[a := obj]) = view self h))))) \<and>
     (case h_get_metadata self h of
        (m, h') \<Rightarrow>
          preserved h h' \<and> view self h' = view self h \<and>
          length h \<le> m \<and> h' ! m = MetaDict (h_metadata self) \<and>
          (\<forall>obj. view self (h'[m := obj]) = view self h))"
proof (intro impI conjI)
  assume well_formed: "well_formed self h"
  show "case h_get_cycle self h n of
        (r, h') \<Rightarrow>
          preserved h h' \<and> view self h' = view self h \<and>
          (\<forall>a. r = Inr a \<longrightarrow>
             length h \<le> a \<and> (\<forall>obj. view self (h'[a := obj]) = view self h))"
  proof (cases "h_get_cycle self h n")
    case (Pair r h')
    from h_get_cycle_frame [OF Pair]
    have p: "preserved h h'" and f: "\<forall>a. r = Inr a \<longrightarrow> length h \<le> a" by simp_all
    show ?thesis
      using p f view_preserved [OF well_formed p] view_update_fresh [OF well_formed p]
      by (simp add: Pair)
  qed
  show "case h_get_cycle_range self h start end of
        (r, h') \<Rightarrow>
          preserved h h' \<and> view self h' = view self h \<and>
          (\<forall>a. r = Inr a \<longrightarrow>
             length h \<le> a \<and> (\<forall>obj. view self (h'[a := obj]) = view self h))"
  proof (cases "h_get_cycle_range self h start end")
    case (Pair r h')
    from h_get_cycle_range_frame [OF Pair]
    have p: "preserved h h'" and f: "\<forall>a. r = Inr a \<longrightarrow> length h \<le> a" by simp_all
    show ?thesis
      using p f view_preserved [OF well_formed p] view_update_fresh [OF well_formed p]
      by (simp add: Pair)
  qed
  show "case h_get_cycles self h cycle_list of
        (r, h') \<Rightarrow>
          preserved h h' \<and> view self h' = view self h \<and>
          (\<forall>d. r = Inr d \<longrightarrow>
             (\<exists>result. h' ! d = CycleDict result \<and>
                (\<forall>a \<in> set (d # map snd result).
                   length h \<le> a \<and> (\<forall>obj. view self (h'[a := obj]) = view self h))))"
  proof (cases "h_get_cycles self h cycle_list")
    case (Pair r h')
    from h_get_cycles_frame [OF Pair]
    have p: "preserved h h'"
      and f: "\<forall>d. r = Inr d \<longrightarrow> length h \<le> d \<and>
                (\<exists>result. h' ! d = CycleDict result \<and>
                   (\<forall>a \<in> set (map snd result). length h \<le> a))"
      by simp_all
    have "\<exists>result. h' ! d = CycleDict result \<and>
                (\<forall>a \<in> set (d # map snd result).
                   length h \<le> a \<and> (\<forall>obj. view self (h'[a := obj]) = view self h))"
      if "r = Inr d" for d
    proof -
      from f that obtain result where
        r: "length h \<le> d" "h' ! d = CycleDict result"
           "\<forall>a \<in> set (map snd result). length h \<le> a"
        by blast
      have "\<forall>a \<in> set (d # map snd result).
              length h \<le> a \<and> (\<forall>obj. view self (h'[a := obj]) = view self h)"
        using r(1,3) view_update_fresh [OF well_formed p] by auto
      with r(2) show ?thesis by blast
    qed
    then show ?thesis
      using p view_preserved [OF well_formed p] by (simp add: Pair)
  qed
  show "case h_get_metadata self h of
        (m, h') \<Rightarrow>
          preserved h h' \<and> view self h' = view self h \<and>
          length h \<le> m \<and> h' ! m = MetaDict (h_metadata self) \<and>
          (\<forall>obj. view self (h'[m := obj]) = view self h)"
  proof (cases "h_get_metadata self h")
    case (Pair m h')
    from h_get_metadata_frame [OF Pair]
    have p: "preserved h h'" and m: "m = length h" "h' ! m = MetaDict (h_metadata self)"
      by blast+
    show ?thesis
      using p m view_preserved [OF well_formed p] view_update_fresh [OF well_formed p, of m]
      by (simp add: Pair)
  qed
qed

text \<open>
  C9. Every read operation hands out a copy, and writing to what it returns is not to
  change the container. \<open>get_metadata\<close> copies the dictionary with
  \<open>self._metadata.copy()\<close>, which copies the entries and not the list that the
  entry \<open>loaded_cycles\<close> refers to. A container is loaded from a PNE directory with
  one cycle; \<open>get_metadata\<close> returns a new dictionary at address 2 whose entry
  \<open>loaded_cycles\<close> refers to the list at address 1, the list the container holds;
  appending 99 to the list through the returned mapping changes the loaded cycles
  stored in the container from \<open>[1]\<close> to \<open>[1, 99]\<close>.
\<close>

theorem C9_metadata_list_is_shared:
  "h_load_all_cycles \<lparr>h_cycles = [], h_metadata = []\<rparr> [] ''data''
     (PNEDataLoader
        \<lparr>savedata =
          [(1, \<lparr>columns = [''TimeMin'', ''Vol'', ''Crate''],
                body = [\<lparr>cell_time = 0, cell_voltage = Some 4, cell_current = Some 1,
                          cell_condition = None\<rparr>,
                        \<lparr>cell_time = 10, cell_voltage = Some 3, cell_current = Some (- 1),
                          cell_condition = None\<rparr>]\<rparr>)],
        restore = []\<rparr>)
     (Some (1, 2)) (Inr (1, 2))
   = (Inr \<lparr>h_cycles = [(1, 0)],
        h_metadata = [(''data_path'', RefPath ''data''), (''cycle_range'', RefRange 1 2),
                      (''loaded_cycles'', RefCycles 1)]\<rparr>,
      [DataFrame [\<lparr>TimeMin = 0, Vol = 4, Crate = 1\<rparr>, \<lparr>TimeMin = 10, Vol = 3, Crate = - 1\<rparr>],
      PyList [1]]) \<and>
   h_get_metadata
     \<lparr>h_cycles = [(1, 0)],
        h_metadata = [(''data_path'', RefPath ''data''), (''cycle_range'', RefRange 1 2),
                      (''loaded_cycles'', RefCycles 1)]\<rparr>
     [DataFrame [\<lparr>TimeMin = 0, Vol = 4, Crate = 1\<rparr>, \<lparr>TimeMin = 10, Vol = 3, Crate = - 1\<rparr>],
      PyList [1]]
   = (2,
      [DataFrame [\<lparr>TimeMin = 0, Vol = 4, Crate = 1\<rparr>, \<lparr>TimeMin = 10, Vol = 3, Crate = - 1\<rparr>],
      PyList [1],
      MetaDict [(''data_path'', RefPath ''data''), (''cycle_range'', RefRange 1 2),
                (''loaded_cycles'', RefCycles 1)]]) \<and>
   container_metadata
     (view \<lparr>h_cycles = [(1, 0)],
        h_metadata = [(''data_path'', RefPath ''data''), (''cycle_range'', RefRange 1 2),
                      (''loaded_cycles'', RefCycles 1)]\<rparr>
        (append_through_mapping
           [DataFrame [\<lparr>TimeMin = 0, Vol = 4, Crate = 1\<rparr>, \<lparr>TimeMin = 10, Vol = 3, Crate = - 1\<rparr>],
      PyList [1],
      MetaDict [(''data_path'', RefPath ''data''), (''cycle_range'', RefRange 1 2),
                (''loaded_cycles'', RefCycles 1)]]
           2 ''loaded_cycles'' 99))
   = [(''data_path'', MetaPath ''data''), (''cycle_range'', MetaRange 1 2),
      (''loaded_cycles'', MetaCycles [1, 99])] \<and>
   container_metadata
     (view \<lparr>h_cycles = [(1, 0)],
        h_metadata = [(''data_path'', RefPath ''data''), (''cycle_range'', RefRange 1 2),
                      (''loaded_cycles'', RefCycles 1)]\<rparr>
        [DataFrame [\<lparr>TimeMin = 0, Vol = 4, Crate = 1\<rparr>, \<lparr>TimeMin = 10, Vol = 3, Crate = - 1\<rparr>],
      PyList [1]])
   = [(''data_path'', MetaPath ''data''), (''cycle_range'', MetaRange 1 2),
      (''loaded_cycles'', MetaCycles [1])]"
  by (simp add: h_load_all_cycles_def upto.simps pne_load_cycle_def validate_data_def
        preprocess_data_def dropna_def alloc_def h_get_metadata_def view_def
        append_through_mapping_def list_append_def list_at_def df_at_def)

end
